theory Spec2Isabelle
  imports Complex_Main "HOL-Library.Multiset"
begin

section \<open>Game constants and data model (script.js, lines 38-150)\<close>

definition COLS :: nat where "COLS = 10"
definition ROWS :: nat where "ROWS = 20"

text \<open>
  \<open>LINE_SCORES\<close> is an object with the keys 1 to 4; \<open>LINE_SCORES[cleared] || 0\<close> reads
  it, and a missing key (\<open>undefined\<close>) becomes 0.
\<close>

definition LINE_SCORES :: "nat \<rightharpoonup> int" where
  "LINE_SCORES = [1 \<mapsto> 40, 2 \<mapsto> 100, 3 \<mapsto> 300, 4 \<mapsto> 1200]"

datatype kind = Kind_I | Kind_O | Kind_T | Kind_S | Kind_Z | Kind_J | Kind_L

text \<open>
  A shape is a matrix of the numbers 0 and 1, tested for truthiness only (\<open>!matrix[y][x]\<close>).
  A board cell is \<open>null\<close> or a colour string; it counts as occupied when it is truthy, that
  is a non-empty string.
\<close>

type_synonym shape = "nat list list"
type_synonym cell = "string option"
type_synonym board = "cell list list"

record tetromino =
  tcolor :: string
  tmatrix :: shape

definition TETROMINOES :: "kind \<Rightarrow> tetromino" where
  "TETROMINOES k = (case k of
     Kind_I \<Rightarrow> \<lparr>tcolor = ''#00d2ff'',
                 tmatrix = [[0, 0, 0, 0], [1, 1, 1, 1], [0, 0, 0, 0], [0, 0, 0, 0]]\<rparr>
   | Kind_O \<Rightarrow> \<lparr>tcolor = ''#ffd400'',
                 tmatrix = [[0, 1, 1, 0], [0, 1, 1, 0], [0, 0, 0, 0], [0, 0, 0, 0]]\<rparr>
   | Kind_T \<Rightarrow> \<lparr>tcolor = ''#b45cff'',
                 tmatrix = [[0, 1, 0, 0], [1, 1, 1, 0], [0, 0, 0, 0], [0, 0, 0, 0]]\<rparr>
   | Kind_S \<Rightarrow> \<lparr>tcolor = ''#1ee37a'',
                 tmatrix = [[0, 1, 1, 0], [1, 1, 0, 0], [0, 0, 0, 0], [0, 0, 0, 0]]\<rparr>
   | Kind_Z \<Rightarrow> \<lparr>tcolor = ''#ff4d4d'',
                 tmatrix = [[1, 1, 0, 0], [0, 1, 1, 0], [0, 0, 0, 0], [0, 0, 0, 0]]\<rparr>
   | Kind_J \<Rightarrow> \<lparr>tcolor = ''#3b7bff'',
                 tmatrix = [[1, 0, 0, 0], [1, 1, 1, 0], [0, 0, 0, 0], [0, 0, 0, 0]]\<rparr>
   | Kind_L \<Rightarrow> \<lparr>tcolor = ''#ff9f1a'',
                 tmatrix = [[0, 0, 1, 0], [1, 1, 1, 0], [0, 0, 0, 0], [0, 0, 0, 0]]\<rparr>)"

text \<open>\<open>Object.keys(TETROMINOES)\<close>: the keys in insertion order.\<close>

definition TYPES :: "kind list" where
  "TYPES = [Kind_I, Kind_O, Kind_T, Kind_S, Kind_Z, Kind_J, Kind_L]"

text \<open>
  A piece object \<open>{ type, matrix, color, x, y }\<close>. The fields \<open>x\<close> and \<open>y\<close> carry the names
  \<open>px\<close> and \<open>py\<close> that \<open>collide\<close> and \<open>merge\<close> give them when they destructure the piece.
\<close>

record piece =
  ptype :: kind
  matrix :: shape
  color :: string
  px :: int
  py :: int

subsection \<open>Helpers (lines 202-208)\<close>

definition makeMatrix :: "nat \<Rightarrow> nat \<Rightarrow> 'a \<Rightarrow> 'a list list" where
  "makeMatrix h w fill = replicate h (replicate w fill)"

definition cloneMatrix :: "'a list list \<Rightarrow> 'a list list" where
  "cloneMatrix m = map (\<lambda>row. row) m"

text \<open>
  The board is created by \<open>makeMatrix(ROWS, COLS, null)\<close> and only changed by \<open>merge\<close>
  (writes inside the grid) and \<open>clearLines\<close> (one row out, one row in), so it always has
  \<open>ROWS\<close> rows of \<open>COLS\<close> cells. \<open>wf_board\<close> states that shape; the lemmas below show that
  every operation keeps it. \<open>boardAt\<close> is the read \<open>b[y][x]\<close>: past the end of a row it is
  \<open>undefined\<close>, which is falsy like \<open>null\<close>. A read of a missing row would throw in the
  source; no board of the program has one, and the model gives \<open>null\<close> there.
\<close>

definition wf_board :: "board \<Rightarrow> bool" where
  "wf_board b = (length b = ROWS \<and> list_all (\<lambda>row. length row = COLS) b)"

definition boardAt :: "board \<Rightarrow> nat \<Rightarrow> nat \<Rightarrow> cell" where
  "boardAt b y x = (if y < length b \<and> x < length (b ! y) then b ! y ! x else None)"

definition truthy :: "cell \<Rightarrow> bool" where
  "truthy c = (case c of None \<Rightarrow> False | Some s \<Rightarrow> s \<noteq> [])"

section \<open>Collision test (lines 239-253)\<close>

text \<open>
  The body of the two loops for one occupied shape cell that maps to board column \<open>bx\<close> and
  board row \<open>by\<close>: \<open>True\<close> is \<open>return true\<close>, \<open>False\<close> is falling through to the next cell.
\<close>

definition blocked :: "board \<Rightarrow> int \<Rightarrow> int \<Rightarrow> bool" where
  "blocked b bx by =
     (if bx < 0 \<or> bx \<ge> int COLS \<or> by \<ge> int ROWS then True
      else if by < 0 then False
      else truthy (boardAt b (nat by) (nat bx)))"

text \<open>The inner loop over the cells of one shape row, from column index \<open>x\<close> on.\<close>

fun collideRow :: "board \<Rightarrow> int \<Rightarrow> int \<Rightarrow> nat \<Rightarrow> nat list \<Rightarrow> bool" where
  "collideRow b ox by x [] = False"
| "collideRow b ox by x (c # cs) =
     (if c \<noteq> 0 \<and> blocked b (ox + int x) by then True
      else collideRow b ox by (Suc x) cs)"

text \<open>The outer loop over the shape rows, from row index \<open>y\<close> on.\<close>

fun collideRows :: "board \<Rightarrow> int \<Rightarrow> int \<Rightarrow> nat \<Rightarrow> shape \<Rightarrow> bool" where
  "collideRows b ox oy y [] = False"
| "collideRows b ox oy y (r # rs) =
     (if collideRow b ox (oy + int y) 0 r then True
      else collideRows b ox oy (Suc y) rs)"

definition collide :: "board \<Rightarrow> piece \<Rightarrow> bool" where
  "collide b p = collideRows b (px p) (py p) 0 (matrix p)"

section \<open>Session state (lines 132-152 and 219)\<close>

text \<open>
  The free-standing variables of the script, as one record. \<open>nextp\<close> is the variable
  \<open>next\<close>; \<open>current\<close> and \<open>nextp\<close> are \<open>null\<close> (\<open>None\<close>) until the first game starts.
  \<open>randCalls\<close> counts the calls of \<open>Math.random\<close> made so far: the generator is an oracle
  \<open>rand\<close>, whose \<open>n\<close>-th value is the result of the \<open>n\<close>-th call, a number in \<open>[0, 1)\<close>.
  Time stamps are real numbers. The three \<open>disabled\<close> flags are those of the start, pause
  and restart buttons. Canvas drawing, sound, overlay text and local storage are not part of
  the state.
\<close>

record state =
  board :: board
  current :: "piece option"
  nextp :: "piece option"
  score :: int
  lines :: int
  level :: int
  highScore :: int
  running :: bool
  paused :: bool
  gameOver :: bool
  dropCounter :: real
  lastTime :: real
  dropInterval :: int
  flashTimer :: int
  bag :: "kind list"
  randCalls :: nat
  startBtnDisabled :: bool
  pauseBtnDisabled :: bool
  restartBtnDisabled :: bool

text \<open>
  A \<open>TypeError\<close> is what the script throws when it reads a property of \<open>null\<close> or
  \<open>undefined\<close>: \<open>current.x\<close> before any game has started, or \<open>def.matrix\<close> for an
  undefined piece type.
\<close>

datatype fault = TypeError

section \<open>Randomizer (lines 210-225)\<close>

text \<open>
  \<open>[arr[i], arr[j]] = [arr[j], arr[i]]\<close> reads both cells, then writes \<open>arr[i]\<close>, then
  \<open>arr[j]\<close>. With \<open>rand\<close> in \<open>[0, 1)\<close> the index \<open>j\<close> is at most \<open>i\<close>, inside the array.
\<close>

definition swap :: "nat \<Rightarrow> nat \<Rightarrow> 'a list \<Rightarrow> 'a list" where
  "swap i j arr = (arr[i := arr ! j])[j := arr ! i]"

text \<open>The loop \<open>for (i = arr.length - 1; i > 0; i--)\<close>, entered at index \<open>i\<close>.\<close>

fun shuffleLoop :: "(nat \<Rightarrow> real) \<Rightarrow> nat \<Rightarrow> nat \<Rightarrow> 'a list \<Rightarrow> 'a list \<times> nat" where
  "shuffleLoop rand 0 n arr = (arr, n)"
| "shuffleLoop rand (Suc i) n arr =
     (let j = nat \<lfloor>rand n * real (Suc i + 1)\<rfloor>
      in shuffleLoop rand i (Suc n) (swap (Suc i) j arr))"

definition shuffleInPlace :: "(nat \<Rightarrow> real) \<Rightarrow> nat \<Rightarrow> 'a list \<Rightarrow> 'a list \<times> nat" where
  "shuffleInPlace rand n arr = shuffleLoop rand (length arr - 1) n arr"

text \<open>\<open>bag.pop()\<close> takes the last element; on an empty array it returns \<open>undefined\<close>.\<close>

definition takeFromBag :: "(nat \<Rightarrow> real) \<Rightarrow> state \<Rightarrow> kind option \<times> state" where
  "takeFromBag rand s =
     (let s1 = (if bag s = []
                then (case shuffleInPlace rand (randCalls s) TYPES of
                        (arr, n) \<Rightarrow> s\<lparr>bag := arr, randCalls := n\<rparr>)
                else s)
      in (if bag s1 = [] then None else Some (last (bag s1)),
          s1\<lparr>bag := butlast (bag s1)\<rparr>))"

section \<open>Piece factory (lines 227-237)\<close>

definition createPiece :: "kind \<Rightarrow> piece" where
  "createPiece t =
     (let def = TETROMINOES t; m = cloneMatrix (tmatrix def)
      in \<lparr>ptype = t, matrix = m, color = tcolor def,
          px = int (COLS div 2) - 2, py = - 1\<rparr>)"

section \<open>Merge (lines 255-267)\<close>

text \<open>
  The guarded write \<open>b[by][bx] = color\<close> for one occupied shape cell. The guard keeps the
  indices inside \<open>ROWS\<close> and \<open>COLS\<close>, so on a board of that shape the write is in range.
\<close>

definition putCell :: "board \<Rightarrow> int \<Rightarrow> int \<Rightarrow> string \<Rightarrow> board" where
  "putCell b bx by col =
     (if by \<ge> 0 \<and> by < int ROWS \<and> bx \<ge> 0 \<and> bx < int COLS
      then b[nat by := (b ! nat by)[nat bx := Some col]]
      else b)"

fun mergeRow :: "board \<Rightarrow> int \<Rightarrow> int \<Rightarrow> string \<Rightarrow> nat \<Rightarrow> nat list \<Rightarrow> board" where
  "mergeRow b ox by col x [] = b"
| "mergeRow b ox by col x (c # cs) =
     mergeRow (if c \<noteq> 0 then putCell b (ox + int x) by col else b) ox by col (Suc x) cs"

fun mergeRows :: "board \<Rightarrow> int \<Rightarrow> int \<Rightarrow> string \<Rightarrow> nat \<Rightarrow> shape \<Rightarrow> board" where
  "mergeRows b ox oy col y [] = b"
| "mergeRows b ox oy col y (r # rs) =
     mergeRows (mergeRow b ox (oy + int y) col 0 r) ox oy col (Suc y) rs"

definition merge :: "board \<Rightarrow> piece \<Rightarrow> board" where
  "merge b p = mergeRows b (px p) (py p) (color p) 0 (matrix p)"

section \<open>Rotation (lines 269-298)\<close>

text \<open>
  \<open>matrix[y][x]\<close> with \<open>x\<close> past the end of row \<open>y\<close> is \<open>undefined\<close>, which is falsy like 0;
  it only happens for a matrix that is not square, and every shape of the program is 4x4.
\<close>

definition shapeAt :: "shape \<Rightarrow> nat \<Rightarrow> nat \<Rightarrow> nat" where
  "shapeAt m y x = (if y < length m \<and> x < length (m ! y) then m ! y ! x else 0)"

definition rotateClockwise :: "shape \<Rightarrow> shape" where
  "rotateClockwise m =
     (let N = length m
      in fold (\<lambda>y res.
                 fold (\<lambda>x res. res[x := (res ! x)[N - 1 - y := shapeAt m y x]]) [0..<N] res)
              [0..<N] (makeMatrix N N 0))"

definition kicks :: "int list" where
  "kicks = [0, - 1, 1, - 2, 2]"

text \<open>
  The loop over the kicks, with \<open>piece.matrix\<close> already set to the rotated shape: \<open>Some\<close> is
  \<open>return true\<close> with the piece as it is then, \<open>None\<close> is leaving the loop.
\<close>

fun tryKicks :: "board \<Rightarrow> piece \<Rightarrow> int \<Rightarrow> int list \<Rightarrow> piece option" where
  "tryKicks b p ox [] = None"
| "tryKicks b p ox (dx # ks) =
     (let p1 = p\<lparr>px := ox + dx\<rparr>
      in if \<not> collide b p1 then Some p1 else tryKicks b p1 ox ks)"

definition tryRotate :: "board \<Rightarrow> piece \<Rightarrow> bool \<times> piece" where
  "tryRotate b p =
     (let original = matrix p;
          rotated = rotateClockwise original;
          p1 = p\<lparr>matrix := rotated\<rparr>;
          ox = px p1
      in case tryKicks b p1 ox kicks of
           Some p2 \<Rightarrow> (True, p2)
         | None \<Rightarrow> (False, p1\<lparr>px := ox, matrix := original\<rparr>))"

section \<open>Line clearing (lines 300-330)\<close>

text \<open>
  The inner loop of \<open>clearLines\<close> for row \<open>y\<close>: the row is full when none of the cells
  \<open>board[y][0 .. COLS-1]\<close> is falsy.
\<close>

definition rowFull :: "board \<Rightarrow> nat \<Rightarrow> bool" where
  "rowFull b y = list_all (\<lambda>x. truthy (boardAt b y x)) [0..<COLS]"

definition fullRow :: "cell list \<Rightarrow> bool" where
  "fullRow row = list_all (\<lambda>x. x < length row \<and> truthy (row ! x)) [0..<COLS]"

definition emptyRow :: "cell list" where
  "emptyRow = replicate COLS None"

text \<open>
  The outer loop, entered with row index \<open>y\<close>. After a row is removed (\<open>splice(y, 1)\<close>) and
  an empty one is put in front (\<open>unshift\<close>), \<open>y++\<close> and the loop's \<open>y--\<close> leave \<open>y\<close> as it
  is, so the same index is examined again.
\<close>

function clearRows :: "board \<Rightarrow> int \<Rightarrow> nat \<Rightarrow> board \<times> nat" where
  "clearRows b y cleared =
     (if y < 0 then (b, cleared)
      else if rowFull b (nat y)
      then clearRows (emptyRow # (take (nat y) b @ drop (Suc (nat y)) b)) y (Suc cleared)
      else clearRows b (y - 1) cleared)"
  by pat_completeness auto
termination
proof (relation "measures [\<lambda>(b, y, c). length (filter fullRow b), \<lambda>(b, y, c). nat (y + 1)]",
       goal_cases)
  case 1
  show ?case by simp
next
  case (2 b y cleared)
  have pos: "0 < COLS" by (simp add: COLS_def)
  from 2 have full: "list_all (\<lambda>x. truthy (boardAt b (nat y) x)) [0..<COLS]"
    by (simp add: rowFull_def)
  from full pos have t0: "truthy (boardAt b (nat y) 0)"
    by (simp add: list_all_iff)
  then have in_range: "nat y < length b"
    by (auto simp: boardAt_def truthy_def split: if_splits)
  with full have fr: "fullRow (b ! nat y)"
    by (auto simp: fullRow_def boardAt_def truthy_def list_all_iff split: if_splits)
  have not_full: "\<not> fullRow emptyRow"
    using pos by (auto simp: fullRow_def emptyRow_def truthy_def list_all_iff)
  have "b = take (nat y) b @ (b ! nat y) # drop (Suc (nat y)) b"
    using in_range by (simp add: id_take_nth_drop)
  then have "length (filter fullRow b) =
             length (filter fullRow (take (nat y) b @ (b ! nat y) # drop (Suc (nat y)) b))"
    by simp
  also have "\<dots> = Suc (length (filter fullRow (take (nat y) b @ drop (Suc (nat y)) b)))"
    using fr by simp
  finally show ?case using not_full by simp
next
  case (3 b y cleared)
  then show ?case by simp
qed

declare clearRows.simps [simp del]

definition lineScore :: "nat \<Rightarrow> int" where
  "lineScore cleared = (case LINE_SCORES cleared of Some v \<Rightarrow> v | None \<Rightarrow> 0)"

definition clearLines :: "state \<Rightarrow> state" where
  "clearLines s =
     (case clearRows (board s) (int ROWS - 1) 0 of
        (b, cleared) \<Rightarrow>
          (let s1 = s\<lparr>board := b\<rparr>
           in if cleared > 0
              then (let s2 = s1\<lparr>lines := lines s1 + int cleared\<rparr>;
                        add = lineScore cleared * level s2;
                        s3 = s2\<lparr>score := score s2 + add\<rparr>;
                        newLevel = lines s3 div 10 + 1;
                        s4 = (if newLevel \<noteq> level s3 then s3\<lparr>level := newLevel\<rparr> else s3);
                        s5 = s4\<lparr>dropInterval := max 90 (900 - (level s4 - 1) * 70)\<rparr>
                    in s5\<lparr>flashTimer := 9\<rparr>)
              else s1))"

section \<open>Ghost position (lines 340-346)\<close>

text \<open>
  The \<open>while\<close> loop probes one row further down until the probe collides. Nothing in the
  loop bounds the number of rounds, so the loop is a partial function: \<open>None\<close> is a loop that
  never ends.
\<close>

partial_function (option) ghostLoop :: "board \<Rightarrow> piece \<Rightarrow> piece option" where
  "ghostLoop b ghost =
     (if \<not> collide b (ghost\<lparr>py := py ghost + 1\<rparr>)
      then ghostLoop b (ghost\<lparr>py := py ghost + 1\<rparr>)
      else Some ghost)"

declare ghostLoop.simps [code]

definition computeGhost :: "board \<Rightarrow> piece \<Rightarrow> piece option" where
  "computeGhost b p = ghostLoop b p"

section \<open>Locking and dropping (lines 348-393, 576-610)\<close>

definition updateHUD :: "state \<Rightarrow> state" where
  "updateHUD s = (if score s > highScore s then s\<lparr>highScore := score s\<rparr> else s)"

definition setGameOver :: "state \<Rightarrow> state" where
  "setGameOver s =
     updateHUD (s\<lparr>running := False, paused := False, gameOver := True,
                  pauseBtnDisabled := True, startBtnDisabled := False,
                  restartBtnDisabled := False\<rparr>)"

text \<open>
  \<open>lockPiece\<close>: \<open>merge\<close> destructures \<open>current\<close>, and \<open>collide\<close> the new \<open>current\<close>, so a
  \<open>null\<close> there throws; so does \<open>createPiece\<close> for an undefined type.
\<close>

definition lockPiece :: "(nat \<Rightarrow> real) \<Rightarrow> state \<Rightarrow> fault + state" where
  "lockPiece rand s =
     (case current s of
        None \<Rightarrow> Inl TypeError
      | Some cur \<Rightarrow>
          (let s1 = clearLines (s\<lparr>board := merge (board s) cur\<rparr>);
               s2 = s1\<lparr>current := nextp s1\<rparr>
           in case takeFromBag rand s2 of
                (None, s3) \<Rightarrow> Inl TypeError
              | (Some t, s3) \<Rightarrow>
                  (let s4 = s3\<lparr>nextp := Some (createPiece t)\<rparr>
                   in case current s4 of
                        None \<Rightarrow> Inl TypeError
                      | Some c \<Rightarrow>
                          Inr (updateHUD (if collide (board s4) c then setGameOver s4
                                          else s4)))))"

definition dropOne :: "(nat \<Rightarrow> real) \<Rightarrow> state \<Rightarrow> fault + (bool \<times> state)" where
  "dropOne rand s =
     (case current s of
        None \<Rightarrow> Inl TypeError
      | Some cur \<Rightarrow>
          (let cur1 = cur\<lparr>py := py cur + 1\<rparr>
           in if collide (board s) cur1
              then (case lockPiece rand (s\<lparr>current := Some (cur1\<lparr>py := py cur1 - 1\<rparr>)\<rparr>) of
                      Inl e \<Rightarrow> Inl e
                    | Inr s1 \<Rightarrow> Inr (True, s1))
              else Inr (False, s\<lparr>current := Some cur1\<rparr>)))"

text \<open>The \<open>while\<close> loop of \<open>hardDrop\<close>; like the ghost loop it has no bound of its
  own. \<open>d\<close> is the counter \<open>dist\<close>.\<close>

partial_function (option) hardDropLoop :: "board \<Rightarrow> piece \<Rightarrow> nat \<Rightarrow> (piece \<times> nat) option" where
  "hardDropLoop b cur d =
     (if \<not> collide b (cur\<lparr>py := py cur + 1\<rparr>)
      then hardDropLoop b (cur\<lparr>py := py cur + 1\<rparr>) (Suc d)
      else Some (cur, d))"

declare hardDropLoop.simps [code]

text \<open>
  The handlers that run a \<open>while\<close> loop return an option around their result: \<open>None\<close> when
  the loop never ends, \<open>Some (Inl TypeError)\<close> when the script throws, \<open>Some (Inr s)\<close> when
  it returns with state \<open>s\<close>.
\<close>

definition hardDrop :: "(nat \<Rightarrow> real) \<Rightarrow> state \<Rightarrow> (fault + state) option" where
  "hardDrop rand s =
     (case current s of
        None \<Rightarrow> Some (Inl TypeError)
      | Some cur \<Rightarrow>
          (case hardDropLoop (board s) cur 0 of
             None \<Rightarrow> None
           | Some (cur1, d) \<Rightarrow>
               Some (lockPiece rand
                       (s\<lparr>current := Some cur1, score := score s + int d * 2\<rparr>))))"

definition softDrop :: "(nat \<Rightarrow> real) \<Rightarrow> state \<Rightarrow> fault + state" where
  "softDrop rand s =
     (case dropOne rand s of
        Inl e \<Rightarrow> Inl e
      | Inr (locked, s1) \<Rightarrow>
          Inr (updateHUD (if \<not> locked then s1\<lparr>score := score s1 + 1\<rparr> else s1)))"

section \<open>Main loop and control actions (lines 481-513, 613-712, 742-755)\<close>

text \<open>
  \<open>drawBoard\<close> changes the state only through the flash countdown; of the rest, the model
  keeps the call of \<open>computeGhost\<close>, whose loop decides whether the frame returns.
\<close>

definition drawBoard :: "state \<Rightarrow> (fault + state) option" where
  "drawBoard s =
     (let s1 = (if flashTimer s > 0 then s\<lparr>flashTimer := flashTimer s - 1\<rparr> else s)
      in case current s1 of
           None \<Rightarrow> Some (Inr s1)
         | Some cur \<Rightarrow>
             (case computeGhost (board s1) cur of
                None \<Rightarrow> None
              | Some ghost \<Rightarrow> Some (Inr s1)))"

definition update :: "(nat \<Rightarrow> real) \<Rightarrow> real \<Rightarrow> state \<Rightarrow> (fault + state) option" where
  "update rand time s =
     (let delta = time - lastTime s;
          s1 = s\<lparr>lastTime := time\<rparr>
      in case (if running s1 \<and> \<not> paused s1 \<and> \<not> gameOver s1
               then (let s2 = s1\<lparr>dropCounter := dropCounter s1 + delta\<rparr>
                     in if dropCounter s2 \<ge> real_of_int (dropInterval s2)
                        then (case dropOne rand s2 of
                                Inl e \<Rightarrow> Inl e
                              | Inr (locked, s3) \<Rightarrow> Inr (s3\<lparr>dropCounter := 0\<rparr>))
                        else Inr s2)
               else Inr s1) of
           Inl e \<Rightarrow> Some (Inl e)
         | Inr s4 \<Rightarrow> drawBoard s4)"

definition move :: "int \<Rightarrow> state \<Rightarrow> fault + state" where
  "move dx s =
     (case current s of
        None \<Rightarrow> Inl TypeError
      | Some cur \<Rightarrow>
          (let cur1 = cur\<lparr>px := px cur + dx\<rparr>
           in if collide (board s) cur1
              then Inr (s\<lparr>current := Some (cur1\<lparr>px := px cur1 - dx\<rparr>)\<rparr>)
              else Inr (s\<lparr>current := Some cur1\<rparr>)))"

definition startNewGame :: "(nat \<Rightarrow> real) \<Rightarrow> state \<Rightarrow> fault + state" where
  "startNewGame rand s =
     (let s1 = s\<lparr>board := makeMatrix ROWS COLS None,
                 score := 0, lines := 0, level := 1, dropInterval := 900, bag := []\<rparr>
      in case takeFromBag rand s1 of
           (None, s2) \<Rightarrow> Inl TypeError
         | (Some t1, s2) \<Rightarrow>
             (let s3 = s2\<lparr>current := Some (createPiece t1)\<rparr>
              in case takeFromBag rand s3 of
                   (None, s4) \<Rightarrow> Inl TypeError
                 | (Some t2, s4) \<Rightarrow>
                     (let s5 = s4\<lparr>nextp := Some (createPiece t2),
                                   running := True, paused := False, gameOver := False,
                                   dropCounter := 0\<rparr>;
                          s6 = updateHUD s5
                      in Inr (s6\<lparr>pauseBtnDisabled := False, restartBtnDisabled := False,
                                 startBtnDisabled := True\<rparr>))))"

definition togglePause :: "state \<Rightarrow> state" where
  "togglePause s =
     (if \<not> running s \<or> gameOver s then s else s\<lparr>paused := \<not> paused s\<rparr>)"

text \<open>
  \<open>onKeyDown\<close> for an event with the given \<open>code\<close> and \<open>repeat\<close> flag. \<open>ensureAudio\<close> and
  \<open>preventDefault\<close> touch nothing of the state.
\<close>

definition onKeyDown :: "(nat \<Rightarrow> real) \<Rightarrow> string \<Rightarrow> bool \<Rightarrow> state \<Rightarrow> (fault + state) option" where
  "onKeyDown rand code repeat s =
     (if \<not> running s
      then (if code = ''Space'' \<or> code = ''Enter'' then Some (startNewGame rand s)
            else Some (Inr s))
      else if gameOver s then Some (Inr s)
      else if code = ''KeyP'' then Some (Inr (togglePause s))
      else if paused s then Some (Inr s)
      else if code = ''ArrowLeft'' then Some (move (- 1) s)
      else if code = ''ArrowRight'' then Some (move 1 s)
      else if code = ''ArrowDown'' then Some (softDrop rand s)
      else if code = ''ArrowUp''
      then (if \<not> repeat
            then (case current s of
                    None \<Rightarrow> Some (Inl TypeError)
                  | Some cur \<Rightarrow> Some (Inr (s\<lparr>current := Some (snd (tryRotate (board s) cur))\<rparr>)))
            else Some (Inr s))
      else if code = ''Space''
      then (if \<not> repeat then hardDrop rand s else Some (Inr s))
      else Some (Inr s))"

text \<open>
  The events the script listens to: key presses, clicks on the three buttons (a disabled
  button sends no click) and animation frames.
\<close>

datatype event =
    KeyDown string bool
  | ClickStart
  | ClickPause
  | ClickRestart
  | AnimationFrame real

definition dispatch :: "(nat \<Rightarrow> real) \<Rightarrow> event \<Rightarrow> state \<Rightarrow> (fault + state) option" where
  "dispatch rand ev s =
     (case ev of
        KeyDown code repeat \<Rightarrow> onKeyDown rand code repeat s
      | ClickStart \<Rightarrow> (if startBtnDisabled s then Some (Inr s) else Some (startNewGame rand s))
      | ClickPause \<Rightarrow> (if pauseBtnDisabled s then Some (Inr s) else Some (Inr (togglePause s)))
      | ClickRestart \<Rightarrow>
          (if restartBtnDisabled s then Some (Inr s) else Some (startNewGame rand s))
      | AnimationFrame time \<Rightarrow> update rand time s)"

section \<open>Shape predicates and example inputs\<close>

text \<open>A square matrix: as many cells in every row as there are rows.\<close>

definition square :: "shape \<Rightarrow> bool" where
  "square m = list_all (\<lambda>row. length row = length m) m"

text \<open>A shape with at least one occupied cell.\<close>

definition hasBlock :: "shape \<Rightarrow> bool" where
  "hasBlock m = list_ex (\<lambda>row. list_ex (\<lambda>c. c \<noteq> 0) row) m"

text \<open>
  \<open>n\<close> consecutive calls of \<open>takeFromBag\<close>: the kinds drawn, in order, and the state after
  the last call.
\<close>

fun draws :: "(nat \<Rightarrow> real) \<Rightarrow> nat \<Rightarrow> state \<Rightarrow> kind option list \<times> state" where
  "draws rand 0 s = ([], s)"
| "draws rand (Suc n) s =
     (case takeFromBag rand s of
        (k, s1) \<Rightarrow> (case draws rand n s1 of (ks, s2) \<Rightarrow> (k # ks, s2)))"

text \<open>
  A run of \<open>Math.random\<close>: 0 for the first twelve calls (the shuffles of the first two bags),
  then always one half.
\<close>

definition exampleRand :: "nat \<Rightarrow> real" where
  "exampleRand n = (if n < 12 then 0 else 1 / 2)"

text \<open>
  A session in the \<open>Running\<close> state on an empty board, with an O piece at its spawn position,
  a T piece coming next and an empty bag; the button flags are those \<open>startNewGame\<close> sets.
\<close>

definition exampleState :: state where
  "exampleState =
     \<lparr>board = makeMatrix ROWS COLS None,
      current = Some (createPiece Kind_O), nextp = Some (createPiece Kind_T),
      score = 0, lines = 0, level = 1, highScore = 0,
      running = True, paused = False, gameOver = False,
      dropCounter = 0, lastTime = 0, dropInterval = 900, flashTimer = 0,
      bag = [], randCalls = 0,
      startBtnDisabled = True, pauseBtnDisabled = False, restartBtnDisabled = False\<rparr>"

text \<open>A T piece one column from the right wall, and a T piece in the middle of the board.\<close>

definition exampleKickPiece :: piece where
  "exampleKickPiece = (createPiece Kind_T)\<lparr>px := 7, py := 5\<rparr>"

definition exampleSpinPiece :: piece where
  "exampleSpinPiece = (createPiece Kind_T)\<lparr>py := 5\<rparr>"

text \<open>
  Two boards for line clearing: seventeen empty rows above a full, a full and a partial row;
  and two full rows with a partial row between them, above a partial row.
\<close>

definition exampleStackedBoard :: board where
  "exampleStackedBoard =
     replicate 17 emptyRow @
       [replicate COLS (Some ''#ffd400''), replicate COLS (Some ''#00d2ff''),
        Some ''#b45cff'' # replicate 9 None]"

definition exampleSplitBoard :: board where
  "exampleSplitBoard =
     replicate 16 emptyRow @
       [replicate COLS (Some ''#ffd400''), Some ''#b45cff'' # replicate 9 None,
        replicate COLS (Some ''#00d2ff''), None # replicate 9 (Some ''#ff4d4d'')]"

text \<open>
  A session about to clear two lines: the two bottom rows are full except for columns 4 and
  5, and the O piece rests in that gap.
\<close>

definition exampleGapRow :: "cell list" where
  "exampleGapRow =
     replicate 4 (Some ''#3b7bff'') @ [None, None] @ replicate 4 (Some ''#3b7bff'')"

definition exampleClearState :: state where
  "exampleClearState =
     exampleState\<lparr>board := replicate 18 emptyRow @ [exampleGapRow, exampleGapRow],
                   current := Some ((createPiece Kind_O)\<lparr>py := 18\<rparr>),
                   score := 1000, lines := 28, level := 3, dropInterval := 760\<rparr>"

text \<open>
  The four states of the session, read off the three flags in the order in which
  \<open>onKeyDown\<close> tests them.
\<close>

datatype phase = Idle | Running | Paused | GameOver

definition phase :: "state \<Rightarrow> phase" where
  "phase s =
     (if gameOver s then GameOver
      else if \<not> running s then Idle
      else if paused s then Paused
      else Running)"

text \<open>
  A sequence of events, handled one after the other; it stops at the first handler that
  throws or does not return.
\<close>

fun run :: "(nat \<Rightarrow> real) \<Rightarrow> event list \<Rightarrow> state \<Rightarrow> (fault + state) option" where
  "run rand [] s = Some (Inr s)"
| "run rand (ev # evs) s =
     (case dispatch rand ev s of
        None \<Rightarrow> None
      | Some (Inl e) \<Rightarrow> Some (Inl e)
      | Some (Inr s1) \<Rightarrow> run rand evs s1)"

text \<open>
  The session when the page has loaded, before any game: the variables as the script
  initialises them, with no saved high score. \<open>startNewGame\<close> sets the three button flags,
  so their values here do not matter for what follows a start.
\<close>

definition exampleIdleState :: state where
  "exampleIdleState =
     \<lparr>board = makeMatrix ROWS COLS None, current = None, nextp = None,
      score = 0, lines = 0, level = 1, highScore = 0,
      running = False, paused = False, gameOver = False,
      dropCounter = 0, lastTime = 0, dropInterval = 900, flashTimer = 0,
      bag = [], randCalls = 0,
      startBtnDisabled = False, pauseBtnDisabled = True, restartBtnDisabled = True\<rparr>"

section \<open>Properties of the collision test\<close>

lemma collideRow_iff:
  "collideRow b ox by x0 cs \<longleftrightarrow>
     (\<exists>i < length cs. cs ! i \<noteq> 0 \<and> blocked b (ox + int (x0 + i)) by)"
proof (induction cs arbitrary: x0)
  case Nil
  show ?case by simp
next
  case (Cons c cs)
  have "(\<exists>i < length (c # cs). (c # cs) ! i \<noteq> 0 \<and> blocked b (ox + int (x0 + i)) by) \<longleftrightarrow>
        (c \<noteq> 0 \<and> blocked b (ox + int x0) by) \<or>
        (\<exists>i < length cs. cs ! i \<noteq> 0 \<and> blocked b (ox + int (Suc x0 + i)) by)"
    by (simp add: Ex_less_Suc2 add.commute add.left_commute)
  with Cons.IH [of "Suc x0"] show ?case by auto
qed

lemma collideRows_iff:
  "collideRows b ox oy y0 rs \<longleftrightarrow>
     (\<exists>j < length rs. \<exists>i < length (rs ! j).
        rs ! j ! i \<noteq> 0 \<and> blocked b (ox + int i) (oy + int (y0 + j)))"
proof (induction rs arbitrary: y0)
  case Nil
  show ?case by simp
next
  case (Cons r rs)
  have "(\<exists>j < length (r # rs). \<exists>i < length ((r # rs) ! j).
           (r # rs) ! j ! i \<noteq> 0 \<and> blocked b (ox + int i) (oy + int (y0 + j))) \<longleftrightarrow>
        (\<exists>i < length r. r ! i \<noteq> 0 \<and> blocked b (ox + int i) (oy + int y0)) \<or>
        (\<exists>j < length rs. \<exists>i < length (rs ! j).
           rs ! j ! i \<noteq> 0 \<and> blocked b (ox + int i) (oy + int (Suc y0 + j)))"
    by (simp add: Ex_less_Suc2 add.commute add.left_commute)
  with Cons.IH [of "Suc y0"] collideRow_iff [of b ox "oy + int y0" 0 r] show ?case
    by auto
qed

lemma collide_iff:
  "collide b p \<longleftrightarrow>
     (\<exists>j < length (matrix p). \<exists>i < length (matrix p ! j).
        matrix p ! j ! i \<noteq> 0 \<and> blocked b (px p + int i) (py p + int j))"
  by (simp add: collide_def collideRows_iff)

lemma boardAt_wf:
  "wf_board b \<Longrightarrow> y < ROWS \<Longrightarrow> x < COLS \<Longrightarrow> boardAt b y x = b ! y ! x"
  by (simp add: wf_board_def boardAt_def list_all_length)

lemma blocked_wf:
  assumes "wf_board b"
  shows "blocked b bx by \<longleftrightarrow>
           bx < 0 \<or> int COLS \<le> bx \<or> int ROWS \<le> by \<or>
           (0 \<le> by \<and> by < int ROWS \<and> 0 \<le> bx \<and> bx < int COLS \<and>
            truthy (b ! nat by ! nat bx))"
proof (cases "bx < 0 \<or> int COLS \<le> bx \<or> int ROWS \<le> by")
  case True
  then show ?thesis by (auto simp: blocked_def)
next
  case False
  then have "by < 0 \<or> (nat by < ROWS \<and> nat bx < COLS)" by auto
  with False assms show ?thesis
    by (auto simp: blocked_def boardAt_wf)
qed

text \<open>
  Claim C1. On every board of the program (\<open>ROWS\<close> rows of \<open>COLS\<close> cells) and for every
  piece, \<open>collide\<close> returns true exactly when some occupied cell of the shape maps to a
  column outside \<open>[0, COLS)\<close>, or to a row \<open>\<ge> ROWS\<close>, or to a cell of the grid with row
  \<open>\<ge> 0\<close> that is occupied. When every occupied cell maps to a row \<open>< 0\<close> inside the column
  bounds, it returns false.
\<close>

theorem collide_characterisation:
  assumes "wf_board b"
  shows "(collide b p \<longleftrightarrow>
            (\<exists>j < length (matrix p). \<exists>i < length (matrix p ! j).
               matrix p ! j ! i \<noteq> 0 \<and>
               (px p + int i < 0 \<or> int COLS \<le> px p + int i \<or> int ROWS \<le> py p + int j \<or>
                (0 \<le> py p + int j \<and> py p + int j < int ROWS \<and>
                 0 \<le> px p + int i \<and> px p + int i < int COLS \<and>
                 truthy (b ! nat (py p + int j) ! nat (px p + int i))))))
       \<and> ((\<forall>j < length (matrix p). \<forall>i < length (matrix p ! j).
               matrix p ! j ! i \<noteq> 0 \<longrightarrow>
               py p + int j < 0 \<and> 0 \<le> px p + int i \<and> px p + int i < int COLS)
            \<longrightarrow> \<not> collide b p)"
proof
  show "collide b p \<longleftrightarrow>
            (\<exists>j < length (matrix p). \<exists>i < length (matrix p ! j).
               matrix p ! j ! i \<noteq> 0 \<and>
               (px p + int i < 0 \<or> int COLS \<le> px p + int i \<or> int ROWS \<le> py p + int j \<or>
                (0 \<le> py p + int j \<and> py p + int j < int ROWS \<and>
                 0 \<le> px p + int i \<and> px p + int i < int COLS \<and>
                 truthy (b ! nat (py p + int j) ! nat (px p + int i)))))"
    by (simp only: collide_iff blocked_wf [OF assms])
next
  show "(\<forall>j < length (matrix p). \<forall>i < length (matrix p ! j).
               matrix p ! j ! i \<noteq> 0 \<longrightarrow>
               py p + int j < 0 \<and> 0 \<le> px p + int i \<and> px p + int i < int COLS)
            \<longrightarrow> \<not> collide b p"
    unfolding collide_iff blocked_wf [OF assms] by fastforce
qed

theorem collide_characterisation_witness:
  "wf_board (makeMatrix ROWS COLS None) \<and>
   \<not> collide (makeMatrix ROWS COLS None) (createPiece Kind_O) \<and>
   \<not> (\<exists>j < length (matrix (createPiece Kind_O)).
        \<exists>i < length (matrix (createPiece Kind_O) ! j).
          matrix (createPiece Kind_O) ! j ! i \<noteq> 0 \<and>
          (px (createPiece Kind_O) + int i < 0 \<or> int COLS \<le> px (createPiece Kind_O) + int i \<or>
           int ROWS \<le> py (createPiece Kind_O) + int j \<or>
           (0 \<le> py (createPiece Kind_O) + int j \<and> py (createPiece Kind_O) + int j < int ROWS \<and>
            0 \<le> px (createPiece Kind_O) + int i \<and> px (createPiece Kind_O) + int i < int COLS \<and>
            truthy (makeMatrix ROWS COLS None ! nat (py (createPiece Kind_O) + int j)
                      ! nat (px (createPiece Kind_O) + int i)))))"
proof -
  have h: "wf_board (makeMatrix ROWS COLS None)" by code_simp
  have e: "\<not> collide (makeMatrix ROWS COLS None) (createPiece Kind_O)" by code_simp
  from collide_characterisation [OF h, of "createPiece Kind_O"] h e show ?thesis
    by blast
qed

section \<open>Rotation\<close>


lemma fold_upt_Suc: "fold F [0..<Suc k] r = F k (fold F [0..<k] r)"
  by simp

lemma inner_fold:
  "n \<le> length res \<Longrightarrow>
   fold (\<lambda>x r. r[x := (r ! x)[c := f x]]) [0..<n] res =
   map (\<lambda>i. if i < n then (res ! i)[c := f i] else res ! i) [0..<length res]"
proof (induction n)
  case 0
  show ?case by (simp add: map_nth)
next
  case (Suc n)
  let ?r = "map (\<lambda>i. if i < n then (res ! i)[c := f i] else res ! i) [0..<length res]"
  from Suc have IH: "fold (\<lambda>x r. r[x := (r ! x)[c := f x]]) [0..<n] res = ?r" and n: "n < length res"
    by simp_all
  have "fold (\<lambda>x r. r[x := (r ! x)[c := f x]]) [0..<Suc n] res = ?r[n := (?r ! n)[c := f n]]"
    by (simp add: IH del: upt_Suc add: upt_Suc_append)
  also have "\<dots> = map (\<lambda>i. if i < Suc n then (res ! i)[c := f i] else res ! i) [0..<length res]"
    using n by (intro nth_equalityI) (auto simp: nth_list_update less_Suc_eq)
  finally show ?case .
qed

lemma outer_fold:
  "k \<le> N \<Longrightarrow>
   fold (\<lambda>y res. fold (\<lambda>x res. res[x := (res ! x)[N - 1 - y := g y x]]) [0..<N] res)
        [0..<k] (makeMatrix N N 0) =
   map (\<lambda>i. map (\<lambda>j. if N - 1 - j < k then g (N - 1 - j) i else 0) [0..<N]) [0..<N]"
proof (induction k)
  case 0
  show ?case by (simp add: makeMatrix_def map_replicate_const)
next
  case (Suc k)
  let ?r = "map (\<lambda>i. map (\<lambda>j. if N - 1 - j < k then g (N - 1 - j) i else 0) [0..<N]) [0..<N]"
  from Suc have IH: "fold (\<lambda>y res. fold (\<lambda>x res. res[x := (res ! x)[N - 1 - y := g y x]]) [0..<N] res)
        [0..<k] (makeMatrix N N 0) = ?r" and k: "k < N" by simp_all
  have "fold (\<lambda>y res. fold (\<lambda>x res. res[x := (res ! x)[N - 1 - y := g y x]]) [0..<N] res)
        [0..<Suc k] (makeMatrix N N 0) =
        fold (\<lambda>x res. res[x := (res ! x)[N - 1 - k := g k x]]) [0..<N] ?r"
    by (subst fold_upt_Suc) (simp only: IH)
  also have "\<dots> = map (\<lambda>i. if i < N then (?r ! i)[N - 1 - k := g k i] else ?r ! i) [0..<length ?r]"
    by (rule inner_fold) simp
  also have "\<dots> = map (\<lambda>i. map (\<lambda>j. if N - 1 - j < Suc k then g (N - 1 - j) i else 0) [0..<N]) [0..<N]"
  proof (rule nth_equalityI)
    show "length (map (\<lambda>i. if i < N then (?r ! i)[N - 1 - k := g k i] else ?r ! i) [0..<length ?r]) =
          length (map (\<lambda>i. map (\<lambda>j. if N - 1 - j < Suc k then g (N - 1 - j) i else 0) [0..<N]) [0..<N])"
      by simp
  next
    fix i assume "i < length (map (\<lambda>i. if i < N then (?r ! i)[N - 1 - k := g k i] else ?r ! i) [0..<length ?r])"
    then have i: "i < N" by simp
    have "(?r ! i)[N - 1 - k := g k i] = map (\<lambda>j. if N - 1 - j < Suc k then g (N - 1 - j) i else 0) [0..<N]"
    proof (rule nth_equalityI)
      show "length ((?r ! i)[N - 1 - k := g k i]) = length (map (\<lambda>j. if N - 1 - j < Suc k then g (N - 1 - j) i else 0) [0..<N])"
        using i by simp
    next
      fix j assume "j < length ((?r ! i)[N - 1 - k := g k i])"
      then have j: "j < N" using i by simp
      have eq: "N - 1 - j = k \<longleftrightarrow> j = N - 1 - k" using j k by arith
      show "(?r ! i)[N - 1 - k := g k i] ! j = map (\<lambda>j. if N - 1 - j < Suc k then g (N - 1 - j) i else 0) [0..<N] ! j"
        using i j k eq by (auto simp: nth_list_update less_Suc_eq)
    qed
    with i show "map (\<lambda>i. if i < N then (?r ! i)[N - 1 - k := g k i] else ?r ! i) [0..<length ?r] ! i =
      map (\<lambda>i. map (\<lambda>j. if N - 1 - j < Suc k then g (N - 1 - j) i else 0) [0..<N]) [0..<N] ! i"
      by simp
  qed
  finally show ?case .
qed

lemma rotateClockwise_closed:
  "rotateClockwise m =
   map (\<lambda>i. map (\<lambda>j. shapeAt m (length m - 1 - j) i) [0..<length m]) [0..<length m]"
proof -
  have "rotateClockwise m =
        map (\<lambda>i. map (\<lambda>j. if length m - 1 - j < length m then shapeAt m (length m - 1 - j) i else 0)
               [0..<length m]) [0..<length m]"
    unfolding rotateClockwise_def Let_def by (rule outer_fold) simp
  also have "\<dots> = map (\<lambda>i. map (\<lambda>j. shapeAt m (length m - 1 - j) i) [0..<length m]) [0..<length m]"
    by (intro map_cong refl) auto
  finally show ?thesis .
qed

lemma length_rotateClockwise: "length (rotateClockwise m) = length m"
  by (simp add: rotateClockwise_closed)

lemma square_rotateClockwise: "square (rotateClockwise m)"
  by (simp add: square_def rotateClockwise_closed list_all_iff)

lemma shapeAt_square: "square m \<Longrightarrow> y < length m \<Longrightarrow> x < length m \<Longrightarrow> shapeAt m y x = m ! y ! x"
  by (simp add: square_def shapeAt_def list_all_length)

lemma shapeAt_rotateClockwise:
  "y < length m \<Longrightarrow> x < length m \<Longrightarrow>
   shapeAt (rotateClockwise m) y x = shapeAt m (length m - 1 - x) y"
  by (simp add: shapeAt_def rotateClockwise_closed)

lemma rotate4:
  assumes "square m"
  shows "rotateClockwise (rotateClockwise (rotateClockwise (rotateClockwise m))) = m"
proof (rule nth_equalityI)
  show len: "length (rotateClockwise (rotateClockwise (rotateClockwise (rotateClockwise m)))) = length m"
    by (simp add: length_rotateClockwise)
  fix i assume "i < length (rotateClockwise (rotateClockwise (rotateClockwise (rotateClockwise m))))"
  then have i: "i < length m" by (simp add: length_rotateClockwise)
  have rowlen: "length (m ! i) = length m" using assms i by (simp add: square_def list_all_length)
  show "rotateClockwise (rotateClockwise (rotateClockwise (rotateClockwise m))) ! i = m ! i"
  proof (rule nth_equalityI)
    show "length (rotateClockwise (rotateClockwise (rotateClockwise (rotateClockwise m))) ! i) = length (m ! i)"
      using i rowlen by (simp add: rotateClockwise_closed [of "rotateClockwise (rotateClockwise (rotateClockwise m))"] length_rotateClockwise)
  next
    fix j assume "j < length (rotateClockwise (rotateClockwise (rotateClockwise (rotateClockwise m))) ! i)"
    then have j: "j < length m"
      using i by (simp add: rotateClockwise_closed [of "rotateClockwise (rotateClockwise (rotateClockwise m))"] length_rotateClockwise)
    let ?N = "length m"
    have a: "?N - 1 - (?N - 1 - i) = i" "?N - 1 - (?N - 1 - j) = j" "?N - 1 - i < ?N" "?N - 1 - j < ?N"
      using i j by arith+
    have "rotateClockwise (rotateClockwise (rotateClockwise (rotateClockwise m))) ! i ! j =
          shapeAt (rotateClockwise (rotateClockwise (rotateClockwise m))) (?N - 1 - j) i"
      using i j by (simp add: rotateClockwise_closed [of "rotateClockwise (rotateClockwise (rotateClockwise m))"] length_rotateClockwise)
    also have "\<dots> = shapeAt (rotateClockwise (rotateClockwise m)) (?N - 1 - i) (?N - 1 - j)"
      using i j a by (simp add: shapeAt_rotateClockwise length_rotateClockwise)
    also have "\<dots> = shapeAt (rotateClockwise m) j (?N - 1 - i)"
      using i j a by (simp add: shapeAt_rotateClockwise length_rotateClockwise)
    also have "\<dots> = shapeAt m i j"
      using i j a by (simp add: shapeAt_rotateClockwise length_rotateClockwise)
    also have "\<dots> = m ! i ! j" using assms i j by (simp add: shapeAt_square)
    finally show "rotateClockwise (rotateClockwise (rotateClockwise (rotateClockwise m))) ! i ! j = m ! i ! j" .
  qed
qed

lemma tryKicks_find:
  "tryKicks b p ox ks =
     (case find (\<lambda>dx. \<not> collide b (p\<lparr>px := ox + dx\<rparr>)) ks of
        None \<Rightarrow> None | Some dx \<Rightarrow> Some (p\<lparr>px := ox + dx\<rparr>))"
  by (induction ks arbitrary: p) (simp_all add: Let_def split: option.splits)

lemma tryRotate_find:
  "tryRotate b p =
     (case find (\<lambda>dx. \<not> collide b (p\<lparr>matrix := rotateClockwise (matrix p), px := px p + dx\<rparr>))
             [0, - 1, 1, - 2, 2] of
        Some dx \<Rightarrow> (True, p\<lparr>matrix := rotateClockwise (matrix p), px := px p + dx\<rparr>)
      | None \<Rightarrow> (False, p))"
  by (simp add: tryRotate_def tryKicks_find kicks_def Let_def split: option.splits)


text \<open>
  Claim C2. The rotated shape is \<open>result[col][N-1-row] = shape[row][col]\<close> (for a square
  shape with \<open>N\<close> rows). \<open>tryRotate\<close> tries it at the column offsets 0, -1, +1, -2, +2 in
  this order: at the first offset without collision it returns true with the piece's shape
  and column updated and nothing else (the row stays); when all five collide it returns
  false and the piece is what it was before the call.
\<close>

theorem tryRotate_kicks:
  "(square (matrix p) \<longrightarrow>
      (\<forall>row < length (matrix p). \<forall>col < length (matrix p).
         rotateClockwise (matrix p) ! col ! (length (matrix p) - 1 - row) = matrix p ! row ! col))
   \<and> tryRotate b p =
       (case find (\<lambda>dx. \<not> collide b (p\<lparr>matrix := rotateClockwise (matrix p), px := px p + dx\<rparr>))
               [0, - 1, 1, - 2, 2] of
          Some dx \<Rightarrow> (True, p\<lparr>matrix := rotateClockwise (matrix p), px := px p + dx\<rparr>)
        | None \<Rightarrow> (False, p))"
proof
  show "square (matrix p) \<longrightarrow>
      (\<forall>row < length (matrix p). \<forall>col < length (matrix p).
         rotateClockwise (matrix p) ! col ! (length (matrix p) - 1 - row) = matrix p ! row ! col)"
  proof (intro impI allI)
    fix row col
    assume sq: "square (matrix p)" and row: "row < length (matrix p)" and col: "col < length (matrix p)"
    let ?N = "length (matrix p)"
    have a: "?N - 1 - row < ?N" "?N - 1 - (?N - 1 - row) = row" using row by arith+
    have "rotateClockwise (matrix p) ! col ! (?N - 1 - row) = shapeAt (matrix p) row col"
      using col a by (simp add: rotateClockwise_closed)
    also have "\<dots> = matrix p ! row ! col" using sq row col by (rule shapeAt_square)
    finally show "rotateClockwise (matrix p) ! col ! (?N - 1 - row) = matrix p ! row ! col" .
  qed
next
  show "tryRotate b p =
       (case find (\<lambda>dx. \<not> collide b (p\<lparr>matrix := rotateClockwise (matrix p), px := px p + dx\<rparr>))
               [0, - 1, 1, - 2, 2] of
          Some dx \<Rightarrow> (True, p\<lparr>matrix := rotateClockwise (matrix p), px := px p + dx\<rparr>)
        | None \<Rightarrow> (False, p))"
    by (rule tryRotate_find)
qed

theorem tryRotate_kicks_witness:
  "square (matrix exampleKickPiece) \<and>
   collide (makeMatrix ROWS COLS None)
     (exampleKickPiece\<lparr>matrix := rotateClockwise (matrix exampleKickPiece)\<rparr>) \<and>
   tryRotate (makeMatrix ROWS COLS None) exampleKickPiece =
     (True, exampleKickPiece\<lparr>matrix := rotateClockwise (matrix exampleKickPiece), px := 6\<rparr>) \<and>
   rotateClockwise (matrix exampleKickPiece) ! 2 ! (length (matrix exampleKickPiece) - 1 - 1) =
     matrix exampleKickPiece ! 1 ! 2"
proof -
  have sq: "square (matrix exampleKickPiece)" by code_simp
  have c: "collide (makeMatrix ROWS COLS None)
     (exampleKickPiece\<lparr>matrix := rotateClockwise (matrix exampleKickPiece)\<rparr>)" by code_simp
  have f: "find (\<lambda>dx. \<not> collide (makeMatrix ROWS COLS None)
                   (exampleKickPiece\<lparr>matrix := rotateClockwise (matrix exampleKickPiece),
                                      px := px exampleKickPiece + dx\<rparr>))
             [0, - 1, 1, - 2, 2] = Some (- 1)" by code_simp
  have x: "px exampleKickPiece + (- 1) = 6" by code_simp
  have l: "(1::nat) < length (matrix exampleKickPiece)" "(2::nat) < length (matrix exampleKickPiece)"
    by code_simp+
  from tryRotate_kicks [of exampleKickPiece "makeMatrix ROWS COLS None"] sq c f x l
  show ?thesis by simp
qed

text \<open>
  Claim C7. For every 4x4 shape matrix, four clockwise rotations give back the matrix, cell
  for cell; so a piece with a 4x4 shape that rotates successfully four times in a row has
  its original shape again.
\<close>

theorem rotate_four_times:
  "(length m = 4 \<and> list_all (\<lambda>row. length row = 4) m \<longrightarrow>
      rotateClockwise (rotateClockwise (rotateClockwise (rotateClockwise m))) = m)
   \<and> (length (matrix p0) = 4 \<and> list_all (\<lambda>row. length row = 4) (matrix p0) \<and>
      tryRotate b p0 = (True, p1) \<and> tryRotate b p1 = (True, p2) \<and>
      tryRotate b p2 = (True, p3) \<and> tryRotate b p3 = (True, p4)
      \<longrightarrow> matrix p4 = matrix p0)"
proof (intro conjI impI)
  assume "length m = 4 \<and> list_all (\<lambda>row. length row = 4) m"
  then have "square m" by (simp add: square_def)
  then show "rotateClockwise (rotateClockwise (rotateClockwise (rotateClockwise m))) = m"
    by (rule rotate4)
next
  assume a: "length (matrix p0) = 4 \<and> list_all (\<lambda>row. length row = 4) (matrix p0) \<and>
      tryRotate b p0 = (True, p1) \<and> tryRotate b p1 = (True, p2) \<and>
      tryRotate b p2 = (True, p3) \<and> tryRotate b p3 = (True, p4)"
  then have sq: "square (matrix p0)" by (simp add: square_def)
  have step: "matrix q' = rotateClockwise (matrix q)" if "tryRotate b q = (True, q')" for q q'
    using that by (auto simp: tryRotate_find split: option.splits)
  from a have "matrix p1 = rotateClockwise (matrix p0)" "matrix p2 = rotateClockwise (matrix p1)"
    "matrix p3 = rotateClockwise (matrix p2)" "matrix p4 = rotateClockwise (matrix p3)"
    by (simp_all add: step [of p0 p1] step [of p1 p2] step [of p2 p3] step [of p3 p4])
  then have "matrix p4 =
      rotateClockwise (rotateClockwise (rotateClockwise (rotateClockwise (matrix p0))))"
    by simp
  with sq show "matrix p4 = matrix p0" by (simp add: rotate4)
qed

theorem rotate_four_times_witness:
  "length (matrix exampleSpinPiece) = 4 \<and>
   list_all (\<lambda>row. length row = 4) (matrix exampleSpinPiece) \<and>
   rotateClockwise (rotateClockwise (rotateClockwise (rotateClockwise (matrix exampleSpinPiece))))
     = matrix exampleSpinPiece \<and>
   fst (tryRotate (makeMatrix ROWS COLS None) exampleSpinPiece) \<and>
   matrix (snd (tryRotate (makeMatrix ROWS COLS None)
     (snd (tryRotate (makeMatrix ROWS COLS None)
       (snd (tryRotate (makeMatrix ROWS COLS None)
         (snd (tryRotate (makeMatrix ROWS COLS None) exampleSpinPiece)))))))) = matrix exampleSpinPiece"
proof -
  let ?b = "makeMatrix ROWS COLS None"
  let ?p1 = "snd (tryRotate ?b exampleSpinPiece)"
  let ?p2 = "snd (tryRotate ?b ?p1)"
  let ?p3 = "snd (tryRotate ?b ?p2)"
  let ?p4 = "snd (tryRotate ?b ?p3)"
  have l: "length (matrix exampleSpinPiece) = 4" by code_simp
  have r: "list_all (\<lambda>row. length row = 4) (matrix exampleSpinPiece)" by code_simp
  have t1: "tryRotate ?b exampleSpinPiece = (True, ?p1)" by code_simp
  have t2: "tryRotate ?b ?p1 = (True, ?p2)" by code_simp
  have t3: "tryRotate ?b ?p2 = (True, ?p3)" by code_simp
  have t4: "tryRotate ?b ?p3 = (True, ?p4)" by code_simp
  have f: "fst (tryRotate ?b exampleSpinPiece)" by code_simp
  from rotate_four_times [of "matrix exampleSpinPiece" exampleSpinPiece ?b ?p1 ?p2 ?p3 ?p4]
    l r t1 t2 t3 t4
  have "rotateClockwise (rotateClockwise (rotateClockwise (rotateClockwise
          (matrix exampleSpinPiece)))) = matrix exampleSpinPiece"
    and "matrix ?p4 = matrix exampleSpinPiece"
    by blast+
  with l r f show ?thesis by blast
qed

section \<open>Horizontal moves\<close>

text \<open>
  Claim C8. A horizontal move whose target position collides leaves the whole state, and so
  the piece's position, exactly as it was, and signals nothing; a move that does not collide
  changes the column of the current piece by \<open>dx\<close> (+1 or -1 from the keyboard) and nothing
  else. Without a current piece the script throws.
\<close>

theorem move_reverts_or_shifts:
  "move dx s =
     (case current s of
        None \<Rightarrow> Inl TypeError
      | Some cur \<Rightarrow>
          Inr (if collide (board s) (cur\<lparr>px := px cur + dx\<rparr>) then s
               else s\<lparr>current := Some (cur\<lparr>px := px cur + dx\<rparr>)\<rparr>))"
  by (simp add: move_def Let_def split: option.splits)

theorem move_reverts_or_shifts_witness:
  "move 1 exampleState =
     Inr (exampleState\<lparr>current := Some ((createPiece Kind_O)\<lparr>px := 4\<rparr>)\<rparr>) \<and>
   move (- 1) (exampleState\<lparr>current := Some ((createPiece Kind_O)\<lparr>px := - 1\<rparr>)\<rparr>) =
     Inr (exampleState\<lparr>current := Some ((createPiece Kind_O)\<lparr>px := - 1\<rparr>)\<rparr>)"
proof -
  let ?s = "exampleState\<lparr>current := Some ((createPiece Kind_O)\<lparr>px := - 1\<rparr>)\<rparr>"
  have c1: "current exampleState = Some (createPiece Kind_O)" by code_simp
  have f1: "\<not> collide (board exampleState) ((createPiece Kind_O)\<lparr>px := px (createPiece Kind_O) + 1\<rparr>)"
    by code_simp
  have x1: "px (createPiece Kind_O) + 1 = 4" by code_simp
  have c2: "current ?s = Some ((createPiece Kind_O)\<lparr>px := - 1\<rparr>)" by simp
  have f2: "collide (board ?s)
              ((createPiece Kind_O)\<lparr>px := - 1\<rparr>\<lparr>px := px ((createPiece Kind_O)\<lparr>px := - 1\<rparr>) + (- 1)\<rparr>)"
    by code_simp
  from move_reverts_or_shifts [of 1 exampleState] c1 f1 x1
  have a: "move 1 exampleState =
     Inr (exampleState\<lparr>current := Some ((createPiece Kind_O)\<lparr>px := 4\<rparr>)\<rparr>)"
    by simp
  from move_reverts_or_shifts [of "- 1" ?s] c2 f2
  have b: "move (- 1) ?s = Inr ?s"
    by (simp only: option.case if_True)
  from a b show ?thesis by (rule conjI)
qed

section \<open>Line clearing\<close>


lemma not_fullRow_emptyRow: "\<not> fullRow emptyRow"
  by (auto simp: fullRow_def emptyRow_def truthy_def COLS_def list_all_iff intro: exI [of _ 0])

lemma rowFull_iff: "rowFull b y \<longleftrightarrow> y < length b \<and> fullRow (b ! y)"
proof -
  have pos: "0 \<in> set [0..<COLS]" by (simp add: COLS_def)
  show ?thesis
  proof (cases "y < length b")
    case True
    then show ?thesis
      by (auto simp: rowFull_def fullRow_def boardAt_def truthy_def list_all_iff
               split: if_splits)
  next
    case False
    then have "\<not> truthy (boardAt b y 0)" by (simp add: boardAt_def truthy_def)
    with pos have "\<not> rowFull b y" unfolding rowFull_def list_all_iff by blast
    with False show ?thesis by simp
  qed
qed

lemma clearRows_loop:
  "- 1 \<le> y \<Longrightarrow> y < int (length b) \<Longrightarrow>
   clearRows b y c =
     (replicate (length (filter fullRow (take (nat (y + 1)) b))) emptyRow
        @ filter (\<lambda>r. \<not> fullRow r) (take (nat (y + 1)) b) @ drop (nat (y + 1)) b,
      c + length (filter fullRow (take (nat (y + 1)) b)))"
proof (induction b y c rule: clearRows.induct)
  case (1 b y cleared)
  show ?case
  proof (cases "y < 0")
    case True
    with "1.prems" have "y = - 1" by simp
    then show ?thesis by (simp add: clearRows.simps [of b "- 1"])
  next
    case nonneg: False
    define n where "n = nat y"
    from nonneg "1.prems" have n: "n < length b" "y = int n" "nat (y + 1) = Suc n"
      by (simp_all add: n_def)
    have tk: "take (Suc n) b = take n b @ [b ! n]"
      using n(1) by (simp add: take_Suc_conv_app_nth)
    show ?thesis
    proof (cases "rowFull b (nat y)")
      case full: True
      then have fr: "fullRow (b ! n)" by (simp add: rowFull_iff n_def)
      let ?b' = "emptyRow # (take n b @ drop (Suc n) b)"
      have len: "y < int (length ?b')" using n by simp
      have tk': "take (Suc n) ?b' = emptyRow # take n b" using n(1) by simp
      have dr': "drop (Suc n) ?b' = drop (Suc n) b" using n(1) by simp
      have IH: "clearRows ?b' y (Suc cleared) =
        (replicate (length (filter fullRow (take (nat (y + 1)) ?b'))) emptyRow
           @ filter (\<lambda>r. \<not> fullRow r) (take (nat (y + 1)) ?b') @ drop (nat (y + 1)) ?b',
         Suc cleared + length (filter fullRow (take (nat (y + 1)) ?b')))"
        using "1.IH"(1) [OF nonneg] full "1.prems"(1) len by (simp add: n_def)
      have "clearRows b y cleared = clearRows ?b' y (Suc cleared)"
        using nonneg full by (subst clearRows.simps) (simp add: n_def)
      also note IH
      finally show ?thesis
        using fr not_fullRow_emptyRow
        by (simp only: n(3) tk tk' dr') (simp add: replicate_app_Cons_same)
    next
      case notfull: False
      then have nfr: "\<not> fullRow (b ! n)" using n(1) by (simp add: rowFull_iff n_def)
      have IH: "clearRows b (y - 1) cleared =
        (replicate (length (filter fullRow (take (nat (y - 1 + 1)) b))) emptyRow
           @ filter (\<lambda>r. \<not> fullRow r) (take (nat (y - 1 + 1)) b) @ drop (nat (y - 1 + 1)) b,
         cleared + length (filter fullRow (take (nat (y - 1 + 1)) b)))"
        using "1.IH"(2) [OF nonneg notfull] nonneg "1.prems"(2) by simp
      have "clearRows b y cleared = clearRows b (y - 1) cleared"
        using nonneg notfull by (subst clearRows.simps) simp
      also note IH
      finally show ?thesis
        using nfr n(1) by (simp add: n(3) tk n_def [symmetric] Cons_nth_drop_Suc)
    qed
  qed
qed

lemma clearRows_all:
  assumes "length b = ROWS"
  shows "clearRows b (int ROWS - 1) 0 =
     (replicate (length (filter fullRow b)) emptyRow @ filter (\<lambda>r. \<not> fullRow r) b,
      length (filter fullRow b))"
proof -
  have "0 < ROWS" by (simp add: ROWS_def)
  with assms have "nat (int ROWS - 1 + 1) = length b" "- 1 \<le> int ROWS - 1" "int ROWS - 1 < int (length b)"
    by simp_all
  with clearRows_loop [of "int ROWS - 1" b 0] show ?thesis by simp
qed

lemma fullRow_wf: "length row = COLS \<Longrightarrow> fullRow row \<longleftrightarrow> list_all truthy row"
  by (auto simp: fullRow_def list_all_length)

lemma wf_board_clearRows:
  assumes "wf_board b"
  shows "wf_board (fst (clearRows b (int ROWS - 1) 0))"
proof -
  from assms have len: "length b = ROWS" and rows: "\<forall>row \<in> set b. length row = COLS"
    by (simp_all add: wf_board_def list_all_iff)
  have "length (replicate (length (filter fullRow b)) emptyRow @ filter (\<lambda>r. \<not> fullRow r) b)
        = length (filter fullRow b) + length (filter (\<lambda>r. \<not> fullRow r) b)"
    by simp
  also have "\<dots> = length b" by (rule sum_length_filter_compl)
  finally have "length (replicate (length (filter fullRow b)) emptyRow @ filter (\<lambda>r. \<not> fullRow r) b)
        = ROWS" using len by simp
  moreover have "\<forall>row \<in> set (replicate (length (filter fullRow b)) emptyRow @
                             filter (\<lambda>r. \<not> fullRow r) b). length row = COLS"
    using rows by (auto simp: emptyRow_def)
  ultimately show ?thesis
    by (simp add: clearRows_all [OF len] wf_board_def list_all_iff)
qed

text \<open>
  Claim C3. On every board, line clearing removes each row in which every column is occupied
  and puts one empty row on top for each row removed; the number of rows and the order of
  the rows that stay are kept, and the count of removed rows is what the loop reports (and
  what \<open>clearLines\<close> adds to \<open>lines\<close>). Full rows need not be adjacent. In particular, when a
  full, a full and a partial row follow each other and no other row is full, exactly two rows
  are cleared, the partial row keeps its content and its place among the others, and the top
  two rows are empty.
\<close>

theorem clearLines_removes_full_rows:
  assumes "wf_board b"
  shows "clearRows b (int ROWS - 1) 0 =
           (replicate (length (filter fullRow b)) emptyRow @ filter (\<lambda>r. \<not> fullRow r) b,
            length (filter fullRow b))
       \<and> (\<forall>row \<in> set b. fullRow row \<longleftrightarrow> list_all truthy row)
       \<and> length (fst (clearRows b (int ROWS - 1) 0)) = length b
       \<and> wf_board (fst (clearRows b (int ROWS - 1) 0))
       \<and> board (clearLines (s\<lparr>board := b\<rparr>)) =
           replicate (length (filter fullRow b)) emptyRow @ filter (\<lambda>r. \<not> fullRow r) b
       \<and> lines (clearLines (s\<lparr>board := b\<rparr>)) = lines s + int (length (filter fullRow b))
       \<and> (\<forall>top f1 f2 p bot.
            b = top @ [f1, f2, p] @ bot \<and> fullRow f1 \<and> fullRow f2 \<and> \<not> fullRow p \<and>
            (\<forall>r \<in> set (top @ bot). \<not> fullRow r)
            \<longrightarrow> clearRows b (int ROWS - 1) 0 = (emptyRow # emptyRow # top @ [p] @ bot, 2))"
proof -
  from assms have len: "length b = ROWS" and rows: "\<forall>row \<in> set b. length row = COLS"
    by (simp_all add: wf_board_def list_all_iff)
  note eq = clearRows_all [OF len]
  have full: "\<forall>row \<in> set b. fullRow row \<longleftrightarrow> list_all truthy row"
    using rows by (simp add: fullRow_wf)
  have wf: "wf_board (fst (clearRows b (int ROWS - 1) 0))"
    using assms by (rule wf_board_clearRows)
  then have keep: "length (fst (clearRows b (int ROWS - 1) 0)) = length b"
    using len by (simp add: wf_board_def)
  have brd: "board (clearLines (s\<lparr>board := b\<rparr>)) =
           replicate (length (filter fullRow b)) emptyRow @ filter (\<lambda>r. \<not> fullRow r) b"
    by (simp add: clearLines_def eq Let_def)
  have lns: "lines (clearLines (s\<lparr>board := b\<rparr>)) = lines s + int (length (filter fullRow b))"
    by (simp add: clearLines_def eq Let_def)
  have inst: "\<forall>top f1 f2 p bot.
            b = top @ [f1, f2, p] @ bot \<and> fullRow f1 \<and> fullRow f2 \<and> \<not> fullRow p \<and>
            (\<forall>r \<in> set (top @ bot). \<not> fullRow r)
            \<longrightarrow> clearRows b (int ROWS - 1) 0 = (emptyRow # emptyRow # top @ [p] @ bot, 2)"
  proof (intro allI impI)
    fix top f1 f2 p bot
    assume a: "b = top @ [f1, f2, p] @ bot \<and> fullRow f1 \<and> fullRow f2 \<and> \<not> fullRow p \<and>
            (\<forall>r \<in> set (top @ bot). \<not> fullRow r)"
    then have t: "filter fullRow top = []" "filter (\<lambda>r. \<not> fullRow r) top = top"
      and bt: "filter fullRow bot = []" "filter (\<lambda>r. \<not> fullRow r) bot = bot"
      by (auto simp: filter_empty_conv filter_id_conv)
    from a have "filter fullRow b = [f1, f2]" "filter (\<lambda>r. \<not> fullRow r) b = top @ [p] @ bot"
      using t bt by simp_all
    with eq show "clearRows b (int ROWS - 1) 0 = (emptyRow # emptyRow # top @ [p] @ bot, 2)"
      by (simp add: numeral_2_eq_2)
  qed
  from eq full keep wf brd lns inst show ?thesis by blast
qed

theorem clearLines_removes_full_rows_witness:
  "wf_board exampleStackedBoard \<and>
   clearRows exampleStackedBoard (int ROWS - 1) 0 =
     (replicate 19 emptyRow @ [Some ''#b45cff'' # replicate 9 None], 2) \<and>
   wf_board exampleSplitBoard \<and>
   clearRows exampleSplitBoard (int ROWS - 1) 0 =
     (replicate 18 emptyRow @
        [Some ''#b45cff'' # replicate 9 None, None # replicate 9 (Some ''#ff4d4d'')], 2)"
proof -
  have w1: "wf_board exampleStackedBoard" by code_simp
  have n1: "length (filter fullRow exampleStackedBoard) = 2" by code_simp
  have k1: "replicate 2 emptyRow @ filter (\<lambda>r. \<not> fullRow r) exampleStackedBoard =
            replicate 19 emptyRow @ [Some ''#b45cff'' # replicate 9 None]" by code_simp
  have w2: "wf_board exampleSplitBoard" by code_simp
  have n2: "length (filter fullRow exampleSplitBoard) = 2" by code_simp
  have k2: "replicate 2 emptyRow @ filter (\<lambda>r. \<not> fullRow r) exampleSplitBoard =
            replicate 18 emptyRow @
              [Some ''#b45cff'' # replicate 9 None, None # replicate 9 (Some ''#ff4d4d'')]"
    by code_simp
  from clearLines_removes_full_rows [OF w1] n1 k1
  have a: "clearRows exampleStackedBoard (int ROWS - 1) 0 =
     (replicate 19 emptyRow @ [Some ''#b45cff'' # replicate 9 None], 2)"
    by simp
  from clearLines_removes_full_rows [OF w2] n2 k2
  have b: "clearRows exampleSplitBoard (int ROWS - 1) 0 =
     (replicate 18 emptyRow @
        [Some ''#b45cff'' # replicate 9 None, None # replicate 9 (Some ''#ff4d4d'')], 2)"
    by simp
  from w1 a w2 b show ?thesis by blast
qed

section \<open>Randomizer\<close>


lemma length_swap: "length (swap i j arr) = length arr"
  by (simp add: swap_def)

lemma mset_swap_arr: "i < length arr \<Longrightarrow> j < length arr \<Longrightarrow> mset (swap i j arr) = mset arr"
  unfolding swap_def by (rule mset_swap)

lemma random_index_le:
  assumes "0 \<le> r" "r < 1"
  shows "nat \<lfloor>r * real (Suc i + 1)\<rfloor> \<le> Suc i"
proof -
  have "r * real (Suc i + 1) < real (Suc i + 1)"
    using assms by (simp add: mult_less_cancel_right1 del: of_nat_Suc of_nat_add)
  then have "\<lfloor>r * real (Suc i + 1)\<rfloor> < int (Suc i + 1)"
    by (simp add: floor_less_iff del: of_nat_Suc of_nat_add)
  then show ?thesis by simp
qed

lemma length_shuffleLoop: "length (fst (shuffleLoop rand i n arr)) = length arr"
  by (induction i arbitrary: n arr) (simp_all add: Let_def length_swap)

lemma mset_shuffleLoop:
  assumes "\<forall>n. 0 \<le> rand n \<and> rand n < 1"
  shows "i < length arr \<Longrightarrow> mset (fst (shuffleLoop rand i n arr)) = mset arr"
proof (induction i arbitrary: n arr)
  case 0
  show ?case by simp
next
  case (Suc i)
  let ?j = "nat \<lfloor>rand n * real (Suc i + 1)\<rfloor>"
  have j: "?j \<le> Suc i" using assms by (intro random_index_le) auto
  with Suc.prems have jl: "?j < length arr" by simp
  have "mset (fst (shuffleLoop rand i (Suc n) (swap (Suc i) ?j arr))) = mset (swap (Suc i) ?j arr)"
    using Suc.prems by (intro Suc.IH) (simp add: length_swap)
  also have "\<dots> = mset arr" using Suc.prems jl by (rule mset_swap_arr)
  finally show ?case by (simp add: Let_def)
qed

lemma mset_shuffleInPlace_TYPES:
  assumes "\<forall>n. 0 \<le> rand n \<and> rand n < 1"
  shows "mset (fst (shuffleInPlace rand n TYPES)) = mset TYPES"
  unfolding shuffleInPlace_def
  by (rule mset_shuffleLoop [OF assms]) (simp add: TYPES_def)

lemma length_shuffleInPlace: "length (fst (shuffleInPlace rand n arr)) = length arr"
  by (simp add: shuffleInPlace_def length_shuffleLoop)

text \<open>What one call of takeFromBag does, by the two cases of the bag.\<close>

lemma takeFromBag_nonempty:
  "bag s \<noteq> [] \<Longrightarrow> takeFromBag rand s = (Some (last (bag s)), s\<lparr>bag := butlast (bag s)\<rparr>)"
  by (simp add: takeFromBag_def Let_def)

lemma takeFromBag_empty:
  assumes "bag s = []"
  shows "takeFromBag rand s =
           (Some (last (fst (shuffleInPlace rand (randCalls s) TYPES))),
            s\<lparr>bag := butlast (fst (shuffleInPlace rand (randCalls s) TYPES)),
              randCalls := snd (shuffleInPlace rand (randCalls s) TYPES)\<rparr>)"
proof -
  have "length (fst (shuffleInPlace rand (randCalls s) TYPES)) = 7"
    by (simp add: length_shuffleInPlace TYPES_def)
  then have "fst (shuffleInPlace rand (randCalls s) TYPES) \<noteq> []" by auto
  with assms show ?thesis
    by (cases "shuffleInPlace rand (randCalls s) TYPES") (simp add: takeFromBag_def Let_def)
qed

lemma takeFromBag_Some: "\<exists>t s1. takeFromBag rand s = (Some t, s1) \<and>
    s1 = s\<lparr>bag := bag s1, randCalls := randCalls s1\<rparr>"
proof (cases "bag s = []")
  case True
  then show ?thesis by (simp add: takeFromBag_empty)
next
  case False
  then show ?thesis by (simp add: takeFromBag_nonempty)
qed

lemma draws_nonempty:
  "length (bag s) = n \<Longrightarrow> draws rand n s = (map Some (rev (bag s)), s\<lparr>bag := []\<rparr>)"
proof (induction n arbitrary: s)
  case 0
  then show ?case by simp
next
  case (Suc n)
  then have ne: "bag s \<noteq> []" by auto
  have len: "length (bag (s\<lparr>bag := butlast (bag s)\<rparr>)) = n" using Suc.prems by simp
  have r: "rev (bag s) = last (bag s) # rev (butlast (bag s))"
    using ne by (metis append_butlast_last_id rev.simps(2) rev_rev_ident rev_singleton_conv rev_append append_Cons append_Nil)
  show ?case
    by (simp add: takeFromBag_nonempty [OF ne] Suc.IH [OF len] r)
qed

lemma draws_cycle:
  assumes "bag s = []"
  shows "draws rand 7 s =
           (map Some (rev (fst (shuffleInPlace rand (randCalls s) TYPES))),
            s\<lparr>bag := [], randCalls := snd (shuffleInPlace rand (randCalls s) TYPES)\<rparr>)"
proof -
  let ?arr = "fst (shuffleInPlace rand (randCalls s) TYPES)"
  let ?s1 = "s\<lparr>bag := butlast ?arr, randCalls := snd (shuffleInPlace rand (randCalls s) TYPES)\<rparr>"
  have l7: "length ?arr = 7" by (simp add: length_shuffleInPlace TYPES_def)
  then have ne: "?arr \<noteq> []" by auto
  have l6: "length (bag ?s1) = 6" using l7 by simp
  have r: "rev ?arr = last ?arr # rev (butlast ?arr)"
    using ne by (metis append_butlast_last_id rev.simps(2) rev_rev_ident rev_singleton_conv rev_append append_Cons append_Nil)
  have seven: "(7::nat) = Suc 6" by simp
  have d6: "draws rand 6 ?s1 = (map Some (rev (butlast ?arr)), ?s1\<lparr>bag := []\<rparr>)"
    using draws_nonempty [OF l6, of rand] by simp
  have d: "draws rand (Suc 6) s =
             (Some (last ?arr) # map Some (rev (butlast ?arr)), ?s1\<lparr>bag := []\<rparr>)"
    by (simp only: draws.simps takeFromBag_empty [OF assms] prod.case d6)
  have "draws rand 7 s = draws rand (Suc 6) s" by (simp only: seven)
  also note d
  finally show ?thesis by (simp add: r)
qed

lemma draws_add:
  "draws rand (m + n) s =
     (case draws rand m s of (ks, s1) \<Rightarrow> (case draws rand n s1 of (ks', s2) \<Rightarrow> (ks @ ks', s2)))"
  by (induction m arbitrary: s) (simp_all split: prod.splits)

lemma count_list_TYPES: "count (mset TYPES) k = 1"
  by (cases k) (simp_all add: TYPES_def)

lemma count_list_map_Some: "count_list (map Some xs) (Some k) = count (mset xs) k"
  by (induction xs) simp_all

lemma draws_two_cycles:
  assumes valid: "\<forall>n. 0 \<le> rand n \<and> rand n < 1" and empty: "bag s = []"
  shows "count_list (fst (draws rand 14 s)) (Some k) = 2"
proof -
  let ?a1 = "fst (shuffleInPlace rand (randCalls s) TYPES)"
  let ?s1 = "s\<lparr>bag := [], randCalls := snd (shuffleInPlace rand (randCalls s) TYPES)\<rparr>"
  let ?a2 = "fst (shuffleInPlace rand (randCalls ?s1) TYPES)"
  have e1: "bag ?s1 = []" by simp
  have "draws rand (7 + 7) s =
          (map Some (rev ?a1) @ map Some (rev ?a2),
           ?s1\<lparr>bag := [], randCalls := snd (shuffleInPlace rand (randCalls ?s1) TYPES)\<rparr>)"
    by (simp only: draws_add draws_cycle [OF empty] draws_cycle [OF e1] prod.case)
  then have "fst (draws rand 14 s) = map Some (rev ?a1) @ map Some (rev ?a2)" by simp
  then have "count_list (fst (draws rand 14 s)) (Some k) =
             count (mset (rev ?a1)) k + count (mset (rev ?a2)) k"
    by (simp add: count_list_map_Some del: mset_rev)
  also have "\<dots> = count (mset TYPES) k + count (mset TYPES) k"
    by (simp add: mset_shuffleInPlace_TYPES [OF valid])
  finally show ?thesis by (simp add: count_list_TYPES)
qed


lemma length_bag_takeFromBag:
  "length (bag s) \<le> 7 \<Longrightarrow> length (bag (snd (takeFromBag rand s))) \<le> 7"
proof (cases "bag s = []")
  case True
  then show ?thesis by (simp add: takeFromBag_empty length_shuffleInPlace TYPES_def)
next
  case False
  assume "length (bag s) \<le> 7"
  with False show ?thesis by (simp add: takeFromBag_nonempty)
qed

lemma length_bag_draws:
  "length (bag s) \<le> 7 \<Longrightarrow> length (bag (snd (draws rand n s))) \<le> 7"
proof (induction n arbitrary: s)
  case 0
  then show ?case by simp
next
  case (Suc n)
  from Suc.prems have "length (bag (snd (takeFromBag rand s))) \<le> 7"
    by (rule length_bag_takeFromBag)
  from Suc.IH [OF this, of ] show ?case
    by (cases "takeFromBag rand s"; cases "draws rand n (snd (takeFromBag rand s))") simp
qed

lemma refill_permutation:
  assumes valid: "\<forall>n. 0 \<le> rand n \<and> rand n < 1" and empty: "bag s = []"
  shows "\<exists>t. fst (takeFromBag rand s) = Some t \<and>
             mset (bag (snd (takeFromBag rand s)) @ [t]) = mset TYPES"
proof -
  let ?arr = "fst (shuffleInPlace rand (randCalls s) TYPES)"
  have "length ?arr = 7" by (simp add: length_shuffleInPlace TYPES_def)
  then have ne: "?arr \<noteq> []" by auto
  have "mset (butlast ?arr @ [last ?arr]) = mset ?arr"
    by (simp only: append_butlast_last_id [OF ne])
  also have "\<dots> = mset TYPES" by (rule mset_shuffleInPlace_TYPES [OF valid])
  finally show ?thesis by (simp add: takeFromBag_empty [OF empty])
qed

text \<open>
  Claim C5, as the code has it. Whatever the shuffles give, 14 consecutive draws that start
  with an empty bag (as the first draws of a game do) yield each of the 7 kinds exactly
  twice; the bag never holds more than 7 entries; a draw from an empty bag refills it with
  a permutation of all 7 kinds and takes its last entry; a draw from a bag that is not empty
  takes the last entry and shuffles nothing.
\<close>

theorem seven_bag:
  assumes "\<forall>n. 0 \<le> rand n \<and> rand n < 1"
  shows "(bag s = [] \<longrightarrow> (\<forall>k. count_list (fst (draws rand 14 s)) (Some k) = 2))
       \<and> (length (bag s) \<le> 7 \<longrightarrow> (\<forall>n. length (bag (snd (draws rand n s))) \<le> 7))
       \<and> (bag s = [] \<longrightarrow>
            (\<exists>t. fst (takeFromBag rand s) = Some t \<and>
                 mset (bag (snd (takeFromBag rand s)) @ [t]) = mset TYPES))
       \<and> (bag s \<noteq> [] \<longrightarrow>
            takeFromBag rand s = (Some (last (bag s)), s\<lparr>bag := butlast (bag s)\<rparr>))"
proof (intro conjI impI allI)
  fix k assume "bag s = []"
  with assms show "count_list (fst (draws rand 14 s)) (Some k) = 2"
    by (rule draws_two_cycles)
next
  fix n assume "length (bag s) \<le> 7"
  then show "length (bag (snd (draws rand n s))) \<le> 7" by (rule length_bag_draws)
next
  assume "bag s = []"
  with assms show "\<exists>t. fst (takeFromBag rand s) = Some t \<and>
                 mset (bag (snd (takeFromBag rand s)) @ [t]) = mset TYPES"
    by (rule refill_permutation)
next
  assume "bag s \<noteq> []"
  then show "takeFromBag rand s = (Some (last (bag s)), s\<lparr>bag := butlast (bag s)\<rparr>)"
    by (rule takeFromBag_nonempty)
qed


lemma draws_fourteen:
  assumes "bag s = []"
  shows "fst (draws rand 14 s) =
           map Some (rev (fst (shuffleInPlace rand (randCalls s) TYPES))) @
           map Some (rev (fst (shuffleInPlace rand
                                 (snd (shuffleInPlace rand (randCalls s) TYPES)) TYPES)))"
proof -
  let ?s1 = "s\<lparr>bag := [], randCalls := snd (shuffleInPlace rand (randCalls s) TYPES)\<rparr>"
  have e1: "bag ?s1 = []" by simp
  have "fst (draws rand (7 + 7) s) =
          map Some (rev (fst (shuffleInPlace rand (randCalls s) TYPES))) @
          map Some (rev (fst (shuffleInPlace rand (randCalls ?s1) TYPES)))"
    by (simp only: draws_add draws_cycle [OF assms] draws_cycle [OF e1] prod.case fst_conv)
  then show ?thesis by simp
qed

lemma draws_window:
  assumes "length (bag s) = m"
  shows "fst (draws rand (m + (7 + 1)) s) =
           map Some (rev (bag s)) @
           map Some (rev (fst (shuffleInPlace rand (randCalls s) TYPES))) @
           [Some (last (fst (shuffleInPlace rand
                               (snd (shuffleInPlace rand (randCalls s) TYPES)) TYPES)))]"
proof -
  let ?s1 = "s\<lparr>bag := []\<rparr>"
  let ?s2 = "?s1\<lparr>bag := [], randCalls := snd (shuffleInPlace rand (randCalls ?s1) TYPES)\<rparr>"
  have e1: "bag ?s1 = []" and e2: "bag ?s2 = []" by simp_all
  have one: "draws rand 1 ?s2 =
               ([fst (takeFromBag rand ?s2)], snd (takeFromBag rand ?s2))"
    by (simp split: prod.splits)
  have t: "fst (takeFromBag rand ?s2) =
             Some (last (fst (shuffleInPlace rand
                               (snd (shuffleInPlace rand (randCalls s) TYPES)) TYPES)))"
    by (simp add: takeFromBag_empty)
  have "fst (draws rand (m + (7 + 1)) s) =
          map Some (rev (bag s)) @
          map Some (rev (fst (shuffleInPlace rand (randCalls ?s1) TYPES))) @
          [fst (takeFromBag rand ?s2)]"
    by (simp only: draws_add draws_nonempty [OF assms] draws_cycle [OF e1] one prod.case fst_conv)
  then show ?thesis by (simp only: t) simp
qed


theorem seven_bag_witness:
  "(\<forall>n. 0 \<le> exampleRand n \<and> exampleRand n < 1) \<and>
   bag exampleState = [] \<and>
   fst (draws exampleRand 14 exampleState) =
     map Some [Kind_I, Kind_L, Kind_J, Kind_Z, Kind_S, Kind_T, Kind_O,
               Kind_I, Kind_L, Kind_J, Kind_Z, Kind_S, Kind_T, Kind_O] \<and>
   count_list (fst (draws exampleRand 14 exampleState)) (Some Kind_T) = 2 \<and>
   length (bag (snd (draws exampleRand 14 exampleState))) \<le> 7"
proof -
  have v: "\<forall>n. 0 \<le> exampleRand n \<and> exampleRand n < 1" by (simp add: exampleRand_def)
  have e: "bag exampleState = []" by code_simp
  have c: "randCalls exampleState = 0" by code_simp
  have a1: "shuffleInPlace exampleRand 0 TYPES =
              ([Kind_O, Kind_T, Kind_S, Kind_Z, Kind_J, Kind_L, Kind_I], 6)" by code_simp
  have a2: "shuffleInPlace exampleRand 6 TYPES =
              ([Kind_O, Kind_T, Kind_S, Kind_Z, Kind_J, Kind_L, Kind_I], 12)" by code_simp
  have d: "fst (draws exampleRand 14 exampleState) =
     map Some [Kind_I, Kind_L, Kind_J, Kind_Z, Kind_S, Kind_T, Kind_O,
               Kind_I, Kind_L, Kind_J, Kind_Z, Kind_S, Kind_T, Kind_O]"
    by (simp add: draws_fourteen [OF e] c a1 a2)
  from seven_bag [OF v, of exampleState] e
  have "count_list (fst (draws exampleRand 14 exampleState)) (Some Kind_T) = 2"
    and "length (bag (snd (draws exampleRand 14 exampleState))) \<le> 7"
    by simp_all
  with v e d show ?thesis by blast
qed

theorem draws_window_counterexample:
  "bag exampleState = [] \<and>
   fst (draws exampleRand 14 (snd (takeFromBag exampleRand exampleState))) =
     map Some [Kind_L, Kind_J, Kind_Z, Kind_S, Kind_T, Kind_O,
               Kind_I, Kind_L, Kind_J, Kind_Z, Kind_S, Kind_T, Kind_O, Kind_S] \<and>
   count_list (fst (draws exampleRand 14 (snd (takeFromBag exampleRand exampleState))))
     (Some Kind_I) = 1 \<and>
   count_list (fst (draws exampleRand 14 (snd (takeFromBag exampleRand exampleState))))
     (Some Kind_S) = 3"
proof -
  let ?s1 = "snd (takeFromBag exampleRand exampleState)"
  have e: "bag exampleState = []" by code_simp
  have c: "randCalls exampleState = 0" by code_simp
  have a1: "shuffleInPlace exampleRand 0 TYPES =
              ([Kind_O, Kind_T, Kind_S, Kind_Z, Kind_J, Kind_L, Kind_I], 6)" by code_simp
  have a2: "shuffleInPlace exampleRand 6 TYPES =
              ([Kind_O, Kind_T, Kind_S, Kind_Z, Kind_J, Kind_L, Kind_I], 12)" by code_simp
  have a3: "shuffleInPlace exampleRand 12 TYPES =
              ([Kind_I, Kind_J, Kind_O, Kind_Z, Kind_T, Kind_L, Kind_S], 18)" by code_simp
  have b1: "bag ?s1 = [Kind_O, Kind_T, Kind_S, Kind_Z, Kind_J, Kind_L]"
    and r1: "randCalls ?s1 = 6"
    by (simp_all add: takeFromBag_empty [OF e] c a1)
  have l: "length (bag ?s1) = 6" by (simp add: b1)
  have "fst (draws exampleRand (6 + (7 + 1)) ?s1) =
     map Some [Kind_L, Kind_J, Kind_Z, Kind_S, Kind_T, Kind_O,
               Kind_I, Kind_L, Kind_J, Kind_Z, Kind_S, Kind_T, Kind_O, Kind_S]"
    by (simp only: draws_window [OF l] b1 r1 a2 a3 fst_conv snd_conv) simp
  then have d: "fst (draws exampleRand 14 ?s1) =
     map Some [Kind_L, Kind_J, Kind_Z, Kind_S, Kind_T, Kind_O,
               Kind_I, Kind_L, Kind_J, Kind_Z, Kind_S, Kind_T, Kind_O, Kind_S]"
    by simp
  have "count_list (fst (draws exampleRand 14 ?s1)) (Some Kind_I) = 1"
    and "count_list (fst (draws exampleRand 14 ?s1)) (Some Kind_S) = 3"
    by (simp_all only: d) simp_all
  with e d show ?thesis by blast
qed

section \<open>Locking and scoring\<close>


lemma clearLines_fields:
  "clearLines s =
     (case clearRows (board s) (int ROWS - 1) 0 of
        (b, n) \<Rightarrow>
          if 0 < n
          then s\<lparr>board := b, lines := lines s + int n,
                 score := score s + lineScore n * level s,
                 level := (lines s + int n) div 10 + 1,
                 dropInterval := max 90 (900 - ((lines s + int n) div 10 + 1 - 1) * 70),
                 flashTimer := 9\<rparr>
          else s\<lparr>board := b\<rparr>)"
  by (cases "clearRows (board s) (int ROWS - 1) 0") (simp add: clearLines_def Let_def)

lemma lockPiece_result:
  assumes "current s = Some cur" and "nextp s = Some nx"
  shows "\<exists>s'. lockPiece rand s = Inr s' \<and>
           board s' = board (clearLines (s\<lparr>board := merge (board s) cur\<rparr>)) \<and>
           score s' = score (clearLines (s\<lparr>board := merge (board s) cur\<rparr>)) \<and>
           lines s' = lines (clearLines (s\<lparr>board := merge (board s) cur\<rparr>)) \<and>
           level s' = level (clearLines (s\<lparr>board := merge (board s) cur\<rparr>)) \<and>
           dropInterval s' = dropInterval (clearLines (s\<lparr>board := merge (board s) cur\<rparr>)) \<and>
           current s' = Some nx"
proof -
  let ?c = "clearLines (s\<lparr>board := merge (board s) cur\<rparr>)"
  have keep: "current ?c = Some cur" "nextp ?c = Some nx"
    using assms by (simp_all add: clearLines_fields split: prod.splits)
  let ?s2 = "?c\<lparr>current := nextp ?c\<rparr>"
  obtain t s3 where tk: "takeFromBag rand ?s2 = (Some t, s3)"
    and s3: "s3 = ?s2\<lparr>bag := bag s3, randCalls := randCalls s3\<rparr>"
    using takeFromBag_Some [of rand ?s2] by blast
  let ?s4 = "s3\<lparr>nextp := Some (createPiece t)\<rparr>"
  have f: "current ?s4 = Some nx" "board ?s4 = board ?c" "score ?s4 = score ?c"
    "lines ?s4 = lines ?c" "level ?s4 = level ?c" "dropInterval ?s4 = dropInterval ?c"
    by (subst s3, simp add: keep)+
  have lp: "lockPiece rand s =
          Inr (updateHUD (if collide (board ?s4) nx then setGameOver ?s4 else ?s4))"
    using assms f(1) by (simp add: lockPiece_def Let_def tk)
  show ?thesis
    unfolding lp using f by (simp add: updateHUD_def setGameOver_def)
qed

lemma lineScore_values:
  "lineScore 0 = 0" "lineScore 1 = 40" "lineScore 2 = 100" "lineScore 3 = 300"
  "lineScore 4 = 1200" "4 < k \<Longrightarrow> lineScore k = 0"
  by (simp_all add: lineScore_def LINE_SCORES_def)


text \<open>
  Claim C4. A lock that clears \<open>n > 0\<close> rows adds \<open>table(n)\<close> times the level before the
  clear to the score, where the table is 1:40, 2:100, 3:300, 4:1200 and 0 above 4; then the
  level is \<open>lines div 10 + 1\<close> for the new total of lines, and the drop interval is
  \<open>max 90 (900 - (level - 1) * 70)\<close>. A lock that clears no row leaves score, lines, level
  and drop interval as they are. The lock itself returns whenever there is a current and a
  next piece.
\<close>

theorem lock_scoring:
  assumes "current s = Some cur" and "nextp s = Some nx"
  shows "(\<exists>s'. lockPiece rand s = Inr s' \<and>
           (let n = snd (clearRows (merge (board s) cur) (int ROWS - 1) 0)
            in (0 < n \<longrightarrow>
                  score s' = score s + lineScore n * level s \<and>
                  lines s' = lines s + int n \<and>
                  level s' = lines s' div 10 + 1 \<and>
                  dropInterval s' = max 90 (900 - (level s' - 1) * 70)) \<and>
               (n = 0 \<longrightarrow>
                  score s' = score s \<and> lines s' = lines s \<and> level s' = level s \<and>
                  dropInterval s' = dropInterval s)))
       \<and> lineScore 1 = 40 \<and> lineScore 2 = 100 \<and> lineScore 3 = 300 \<and> lineScore 4 = 1200
       \<and> (\<forall>k. 4 < k \<longrightarrow> lineScore k = 0)"
proof -
  let ?c = "clearLines (s\<lparr>board := merge (board s) cur\<rparr>)"
  obtain b n where cr: "clearRows (merge (board s) cur) (int ROWS - 1) 0 = (b, n)"
    by (cases "clearRows (merge (board s) cur) (int ROWS - 1) 0")
  from lockPiece_result [OF assms, of rand] obtain s' where
    lp: "lockPiece rand s = Inr s'" and
    f: "score s' = score ?c" "lines s' = lines ?c" "level s' = level ?c"
       "dropInterval s' = dropInterval ?c"
    by blast
  have pos: "0 < n \<Longrightarrow>
          score ?c = score s + lineScore n * level s \<and>
          lines ?c = lines s + int n \<and>
          level ?c = (lines s + int n) div 10 + 1 \<and>
          dropInterval ?c = max 90 (900 - ((lines s + int n) div 10 + 1 - 1) * 70)"
    by (simp add: clearLines_fields cr)
  have zero: "n = 0 \<Longrightarrow>
          score ?c = score s \<and> lines ?c = lines s \<and> level ?c = level s \<and>
          dropInterval ?c = dropInterval s"
    by (simp add: clearLines_fields cr)
  have "let n = snd (clearRows (merge (board s) cur) (int ROWS - 1) 0)
            in (0 < n \<longrightarrow>
                  score s' = score s + lineScore n * level s \<and>
                  lines s' = lines s + int n \<and>
                  level s' = lines s' div 10 + 1 \<and>
                  dropInterval s' = max 90 (900 - (level s' - 1) * 70)) \<and>
               (n = 0 \<longrightarrow>
                  score s' = score s \<and> lines s' = lines s \<and> level s' = level s \<and>
                  dropInterval s' = dropInterval s)"
    using pos zero by (simp add: cr f Let_def)
  with lp have "\<exists>s'. lockPiece rand s = Inr s' \<and>
           (let n = snd (clearRows (merge (board s) cur) (int ROWS - 1) 0)
            in (0 < n \<longrightarrow>
                  score s' = score s + lineScore n * level s \<and>
                  lines s' = lines s + int n \<and>
                  level s' = lines s' div 10 + 1 \<and>
                  dropInterval s' = max 90 (900 - (level s' - 1) * 70)) \<and>
               (n = 0 \<longrightarrow>
                  score s' = score s \<and> lines s' = lines s \<and> level s' = level s \<and>
                  dropInterval s' = dropInterval s))"
    by blast
  moreover have "lineScore 1 = 40 \<and> lineScore 2 = 100 \<and> lineScore 3 = 300 \<and>
      lineScore 4 = 1200 \<and> (\<forall>k. 4 < k \<longrightarrow> lineScore k = 0)"
    by (simp add: lineScore_def LINE_SCORES_def)
  ultimately show ?thesis by (rule conjI)
qed

theorem lock_scoring_witness:
  "current exampleClearState = Some ((createPiece Kind_O)\<lparr>py := 18\<rparr>) \<and>
   nextp exampleClearState = Some (createPiece Kind_T) \<and>
   snd (clearRows (merge (board exampleClearState) ((createPiece Kind_O)\<lparr>py := 18\<rparr>))
          (int ROWS - 1) 0) = 2 \<and>
   (\<exists>s'. lockPiece exampleRand exampleClearState = Inr s' \<and>
         score s' = 1300 \<and> lines s' = 30 \<and> level s' = 4 \<and> dropInterval s' = 690)"
proof -
  have c: "current exampleClearState = Some ((createPiece Kind_O)\<lparr>py := 18\<rparr>)" by code_simp
  have x: "nextp exampleClearState = Some (createPiece Kind_T)" by code_simp
  have n: "snd (clearRows (merge (board exampleClearState) ((createPiece Kind_O)\<lparr>py := 18\<rparr>))
          (int ROWS - 1) 0) = 2" by code_simp
  have v: "score exampleClearState = 1000" "lines exampleClearState = 28"
    "level exampleClearState = 3" by code_simp+
  from lock_scoring [OF c x, of exampleRand] obtain s' where
    lp: "lockPiece exampleRand exampleClearState = Inr s'" and
    r: "let n = snd (clearRows (merge (board exampleClearState)
                                  ((createPiece Kind_O)\<lparr>py := 18\<rparr>)) (int ROWS - 1) 0)
        in (0 < n \<longrightarrow>
              score s' = score exampleClearState + lineScore n * level exampleClearState \<and>
              lines s' = lines exampleClearState + int n \<and>
              level s' = lines s' div 10 + 1 \<and>
              dropInterval s' = max 90 (900 - (level s' - 1) * 70)) \<and>
           (n = 0 \<longrightarrow>
              score s' = score exampleClearState \<and> lines s' = lines exampleClearState \<and>
              level s' = level exampleClearState \<and>
              dropInterval s' = dropInterval exampleClearState)"
    by blast
  from r have "score s' = 1300 \<and> lines s' = 30 \<and> level s' = 4 \<and> dropInterval s' = 690"
    by (simp add: n v Let_def lineScore_values)
  with lp c x n show ?thesis by blast
qed

section \<open>The board keeps its shape\<close>


lemma wf_board_makeMatrix: "wf_board (makeMatrix ROWS COLS None)"
  by (simp add: wf_board_def makeMatrix_def list_all_iff)

lemma wf_board_putCell: "wf_board b \<Longrightarrow> wf_board (putCell b bx by col)"
  by (auto simp: wf_board_def putCell_def list_all_length nth_list_update)

lemma wf_board_mergeRow: "wf_board b \<Longrightarrow> wf_board (mergeRow b ox by col x cs)"
  by (induction cs arbitrary: b x) (simp_all add: wf_board_putCell)

lemma wf_board_mergeRows: "wf_board b \<Longrightarrow> wf_board (mergeRows b ox oy col y rs)"
  by (induction rs arbitrary: b y) (simp_all add: wf_board_mergeRow)

lemma wf_board_merge: "wf_board b \<Longrightarrow> wf_board (merge b p)"
  by (simp add: merge_def wf_board_mergeRows)

lemma wf_board_clearLines: "wf_board (board s) \<Longrightarrow> wf_board (board (clearLines s))"
  using wf_board_clearRows [of "board s"]
  by (cases "clearRows (board s) (int ROWS - 1) 0") (simp add: clearLines_fields)

lemma wf_board_lockPiece:
  assumes "wf_board (board s)" and "current s = Some cur" and "nextp s = Some nx"
    and "lockPiece rand s = Inr s'"
  shows "wf_board (board s')"
proof -
  from lockPiece_result [OF assms(2,3), of rand] assms(4)
  have "board s' = board (clearLines (s\<lparr>board := merge (board s) cur\<rparr>))" by auto
  moreover have "wf_board (board (clearLines (s\<lparr>board := merge (board s) cur\<rparr>)))"
    using assms(1) by (intro wf_board_clearLines) (simp add: wf_board_merge)
  ultimately show ?thesis by simp
qed

section \<open>Drop loops and the hard drop\<close>



lemma hasBlock_iff:
  "hasBlock m \<longleftrightarrow> (\<exists>j < length m. \<exists>i < length (m ! j). m ! j ! i \<noteq> 0)"
  unfolding hasBlock_def list_ex_length by simp

lemma collide_imp_hasBlock: "collide b p \<Longrightarrow> hasBlock (matrix p)"
  unfolding collide_iff hasBlock_iff by blast

lemma collide_below:
  assumes "j < length (matrix p)" "i < length (matrix p ! j)" "matrix p ! j ! i \<noteq> 0"
    and "int ROWS \<le> py p + int j"
  shows "collide b p"
proof -
  from assms(4) have "blocked b (px p + int i) (py p + int j)" by (simp add: blocked_def)
  with assms(1-3) show ?thesis unfolding collide_iff by blast
qed

lemma collide_at_floor:
  assumes "hasBlock (matrix p)" and "int ROWS \<le> py p"
  shows "collide b p"
proof -
  from assms(1) obtain j i where ji: "j < length (matrix p)" "i < length (matrix p ! j)"
    "matrix p ! j ! i \<noteq> 0" unfolding hasBlock_iff by blast
  from assms(2) have "int ROWS \<le> py p + int j" by simp
  with ji show ?thesis by (rule collide_below)
qed

lemma hardDropLoop_terminates:
  "hasBlock (matrix p) \<Longrightarrow>
   \<exists>k. hardDropLoop b p d = Some (p\<lparr>py := py p + int k\<rparr>, d + k) \<and>
       int k \<le> max 0 (int ROWS - 1 - py p)"
proof (induction n \<equiv> "nat (int ROWS - 1 - py p)" arbitrary: p d rule: less_induct)
  case less
  show ?case
  proof (cases "collide b (p\<lparr>py := py p + 1\<rparr>)")
    case True
    then have "hardDropLoop b p d = Some (p, d)" by (subst hardDropLoop.simps) simp
    then have "hardDropLoop b p d = Some (p\<lparr>py := py p + int 0\<rparr>, d + 0) \<and>
               int 0 \<le> max 0 (int ROWS - 1 - py p)" by simp
    then show ?thesis by blast
  next
    case False
    let ?q = "p\<lparr>py := py p + 1\<rparr>"
    have hb: "hasBlock (matrix ?q)" using less.prems by simp
    have "\<not> int ROWS \<le> py ?q" using False collide_at_floor [OF hb] by blast
    then have lt: "py p + 1 < int ROWS" by simp
    then have "nat (int ROWS - 1 - py ?q) < nat (int ROWS - 1 - py p)" by simp
    from less.hyps [OF this hb, of "Suc d"] obtain k where
      k: "hardDropLoop b ?q (Suc d) = Some (?q\<lparr>py := py ?q + int k\<rparr>, Suc d + k)"
      and kb: "int k \<le> max 0 (int ROWS - 1 - py ?q)" by blast
    have "hardDropLoop b p d = hardDropLoop b ?q (Suc d)"
      using False by (subst hardDropLoop.simps) simp
    with k have "hardDropLoop b p d = Some (p\<lparr>py := py p + int (Suc k)\<rparr>, d + Suc k)"
      by (simp add: add.assoc add.commute)
    moreover have "int (Suc k) \<le> max 0 (int ROWS - 1 - py p)" using kb lt by simp
    ultimately show ?thesis by blast
  qed
qed

lemma ghostLoop_terminates:
  "hasBlock (matrix p) \<Longrightarrow>
   \<exists>k. ghostLoop b p = Some (p\<lparr>py := py p + int k\<rparr>) \<and>
       int k \<le> max 0 (int ROWS - 1 - py p)"
proof (induction n \<equiv> "nat (int ROWS - 1 - py p)" arbitrary: p rule: less_induct)
  case less
  show ?case
  proof (cases "collide b (p\<lparr>py := py p + 1\<rparr>)")
    case True
    then have "ghostLoop b p = Some p" by (subst ghostLoop.simps) simp
    then have "ghostLoop b p = Some (p\<lparr>py := py p + int 0\<rparr>) \<and>
               int 0 \<le> max 0 (int ROWS - 1 - py p)" by simp
    then show ?thesis by blast
  next
    case False
    let ?q = "p\<lparr>py := py p + 1\<rparr>"
    have hb: "hasBlock (matrix ?q)" using less.prems by simp
    have "\<not> int ROWS \<le> py ?q" using False collide_at_floor [OF hb] by blast
    then have lt: "py p + 1 < int ROWS" by simp
    then have "nat (int ROWS - 1 - py ?q) < nat (int ROWS - 1 - py p)" by simp
    from less.hyps [OF this hb] obtain k where
      k: "ghostLoop b ?q = Some (?q\<lparr>py := py ?q + int k\<rparr>)"
      and kb: "int k \<le> max 0 (int ROWS - 1 - py ?q)" by blast
    have "ghostLoop b p = ghostLoop b ?q"
      using False by (subst ghostLoop.simps) simp
    with k have "ghostLoop b p = Some (p\<lparr>py := py p + int (Suc k)\<rparr>)"
      by (simp add: add.assoc add.commute)
    moreover have "int (Suc k) \<le> max 0 (int ROWS - 1 - py p)" using kb lt by simp
    ultimately show ?thesis by blast
  qed
qed

lemma hardDropLoop_Some_hasBlock:
  "hardDropLoop b p d = Some r \<Longrightarrow> hasBlock (matrix p)"
proof (induction rule: hardDropLoop.raw_induct [rotated 1, consumes 1])
  case (1 f b p d r)
  show ?case
  proof (cases "collide b (p\<lparr>py := py p + 1\<rparr>)")
    case True
    from collide_imp_hasBlock [OF this] show ?thesis by simp
  next
    case False
    with 1(2) have "f b (p\<lparr>py := py p + 1\<rparr>) (Suc d) = Some r" by simp
    from 1(1) [OF this] show ?thesis by simp
  qed
qed

lemma ghostLoop_Some_hasBlock:
  "ghostLoop b p = Some r \<Longrightarrow> hasBlock (matrix p)"
proof (induction rule: ghostLoop.raw_induct [rotated 1, consumes 1])
  case (1 f b p r)
  show ?case
  proof (cases "collide b (p\<lparr>py := py p + 1\<rparr>)")
    case True
    from collide_imp_hasBlock [OF this] show ?thesis by simp
  next
    case False
    with 1(2) have "f b (p\<lparr>py := py p + 1\<rparr>) = Some r" by simp
    from 1(1) [OF this] show ?thesis by simp
  qed
qed

lemma hasBlock_createPiece: "hasBlock (matrix (createPiece k))"
  by (cases k) (simp_all add: hasBlock_def createPiece_def TETROMINOES_def cloneMatrix_def)


text \<open>
  Claim C10. For every board and every piece whose shape has an occupied cell, the probing
  loops of the ghost query and of the hard drop end, after at most \<open>ROWS - originRow\<close>
  rounds (none when the piece is already below the board), and \<open>hardDrop\<close> returns: an
  occupied cell at a row \<open>\<ge> ROWS\<close> makes \<open>collide\<close> true. For a shape with no occupied
  cell neither loop ends. All seven piece kinds have an occupied cell.
\<close>

theorem drop_loops_terminate:
  "(hasBlock (matrix p) \<longrightarrow>
      (\<exists>k. computeGhost b p = Some (p\<lparr>py := py p + int k\<rparr>) \<and>
           int k \<le> max 0 (int ROWS - py p)) \<and>
      (\<exists>k. hardDropLoop b p 0 = Some (p\<lparr>py := py p + int k\<rparr>, k) \<and>
           int k \<le> max 0 (int ROWS - py p)) \<and>
      (\<forall>s :: state. current s = Some p \<longrightarrow> hardDrop rand s \<noteq> None))
   \<and> (\<forall>j i. j < length (matrix p) \<and> i < length (matrix p ! j) \<and> matrix p ! j ! i \<noteq> 0 \<and>
            int ROWS \<le> py p + int j \<longrightarrow> collide b p)
   \<and> (\<not> hasBlock (matrix p) \<longrightarrow> computeGhost b p = None \<and> hardDropLoop b p d = None)
   \<and> (\<forall>k. hasBlock (matrix (createPiece k)))"
proof (intro conjI impI allI)
  assume hb: "hasBlock (matrix p)"
  from ghostLoop_terminates [OF hb, of b] obtain k where
    "ghostLoop b p = Some (p\<lparr>py := py p + int k\<rparr>)" "int k \<le> max 0 (int ROWS - 1 - py p)"
    by blast
  then have "computeGhost b p = Some (p\<lparr>py := py p + int k\<rparr>) \<and>
             int k \<le> max 0 (int ROWS - py p)"
    by (simp add: computeGhost_def)
  then show "\<exists>k. computeGhost b p = Some (p\<lparr>py := py p + int k\<rparr>) \<and>
                 int k \<le> max 0 (int ROWS - py p)" by blast
next
  assume hb: "hasBlock (matrix p)"
  from hardDropLoop_terminates [OF hb, of b 0] obtain k where
    "hardDropLoop b p 0 = Some (p\<lparr>py := py p + int k\<rparr>, k)"
    "int k \<le> max 0 (int ROWS - 1 - py p)"
    by auto
  then have "hardDropLoop b p 0 = Some (p\<lparr>py := py p + int k\<rparr>, k) \<and>
             int k \<le> max 0 (int ROWS - py p)"
    by simp
  then show "\<exists>k. hardDropLoop b p 0 = Some (p\<lparr>py := py p + int k\<rparr>, k) \<and>
                 int k \<le> max 0 (int ROWS - py p)" by blast
next
  fix s :: state
  assume hb: "hasBlock (matrix p)" and cur: "current s = Some p"
  from hardDropLoop_terminates [OF hb, of "board s" 0] obtain r where
    "hardDropLoop (board s) p 0 = Some r" by blast
  with cur show "hardDrop rand s \<noteq> None"
    by (cases r) (simp add: hardDrop_def)
next
  fix j i
  assume "j < length (matrix p) \<and> i < length (matrix p ! j) \<and> matrix p ! j ! i \<noteq> 0 \<and>
            int ROWS \<le> py p + int j"
  then show "collide b p" using collide_below [of j p i b] by blast
next
  assume nb: "\<not> hasBlock (matrix p)"
  show "computeGhost b p = None"
  proof (cases "computeGhost b p")
    case (Some r)
    then have "hasBlock (matrix p)"
      unfolding computeGhost_def by (rule ghostLoop_Some_hasBlock)
    with nb show ?thesis by simp
  qed simp
next
  assume nb: "\<not> hasBlock (matrix p)"
  show "hardDropLoop b p d = None"
  proof (cases "hardDropLoop b p d")
    case (Some r)
    then have "hasBlock (matrix p)" by (rule hardDropLoop_Some_hasBlock)
    with nb show ?thesis by simp
  qed simp
next
  fix k show "hasBlock (matrix (createPiece k))" by (rule hasBlock_createPiece)
qed

theorem drop_loops_terminate_witness:
  "hasBlock (matrix (createPiece Kind_O)) \<and>
   computeGhost (makeMatrix ROWS COLS None) (createPiece Kind_O) =
     Some ((createPiece Kind_O)\<lparr>py := 18\<rparr>) \<and>
   hardDropLoop (makeMatrix ROWS COLS None) (createPiece Kind_O) 0 =
     Some ((createPiece Kind_O)\<lparr>py := 18\<rparr>, 19) \<and>
   (19::int) \<le> max 0 (int ROWS - py (createPiece Kind_O))"
proof -
  let ?B = "makeMatrix ROWS COLS None"
  let ?P = "createPiece Kind_O"
  have hb: "hasBlock (matrix ?P)" by code_simp
  have g: "computeGhost ?B ?P = Some (?P\<lparr>py := 18\<rparr>)" by code_simp
  have h: "hardDropLoop ?B ?P 0 = Some (?P\<lparr>py := 18\<rparr>, 19)" by code_simp
  from drop_loops_terminate [of ?P ?B] hb obtain k where
    "hardDropLoop ?B ?P 0 = Some (?P\<lparr>py := py ?P + int k\<rparr>, k)"
    "int k \<le> max 0 (int ROWS - py ?P)"
    by blast
  with h have "(19::int) \<le> max 0 (int ROWS - py ?P)" by simp
  with hb g h show ?thesis by blast
qed

lemma hardDrop_O_result:
  assumes "board s = makeMatrix ROWS COLS None"
    and "current s = Some (createPiece Kind_O)" and "nextp s = Some nx"
  shows "\<exists>s'. hardDrop rand s = Some (Inr s') \<and>
           board s' = (makeMatrix ROWS COLS None)
                        [18 := emptyRow[4 := Some ''#ffd400'', 5 := Some ''#ffd400''],
                         19 := emptyRow[4 := Some ''#ffd400'', 5 := Some ''#ffd400'']] \<and>
           score s' = score s + 38 \<and> lines s' = lines s"
proof -
  let ?O = "(createPiece Kind_O)\<lparr>py := 18\<rparr>"
  let ?L = "(makeMatrix ROWS COLS None)
                        [18 := emptyRow[4 := Some ''#ffd400'', 5 := Some ''#ffd400''],
                         19 := emptyRow[4 := Some ''#ffd400'', 5 := Some ''#ffd400'']]"
  let ?s1 = "s\<lparr>current := Some ?O, score := score s + int 19 * 2\<rparr>"
  have hd: "hardDropLoop (makeMatrix ROWS COLS None) (createPiece Kind_O) 0 = Some (?O, 19)"
    by code_simp
  have mg: "merge (makeMatrix ROWS COLS None) ?O = ?L" by code_simp
  have cr: "clearRows ?L (int ROWS - 1) 0 = (?L, 0)" by code_simp
  have h: "hardDrop rand s = Some (lockPiece rand ?s1)"
    by (simp add: hardDrop_def assms hd)
  have c: "current ?s1 = Some ?O" and n: "nextp ?s1 = Some nx" using assms by simp_all
  have cl: "clearLines (?s1\<lparr>board := merge (board ?s1) ?O\<rparr>) = ?s1\<lparr>board := ?L\<rparr>"
    by (simp add: clearLines_fields assms(1) mg cr)
  from lockPiece_result [OF c n, of rand] obtain s' where
    "lockPiece rand ?s1 = Inr s'" "board s' = ?L" "score s' = score s + 38" "lines s' = lines s"
    unfolding cl by auto
  with h show ?thesis by simp
qed

text \<open>
  Claim C6, as the code has it. From an empty 10x20 board with an O piece at its spawn
  position (column 3, row -1), a hard drop returns with the four cells of the piece locked
  into rows 18 and 19 at columns 4 and 5 and nothing else on the board, the score raised by
  38 (two points for each of the 19 rows the piece moves down), and no line cleared.
\<close>

theorem hardDrop_O_piece:
  assumes "board s = makeMatrix ROWS COLS None"
    and "current s = Some (createPiece Kind_O)" and "nextp s = Some nx"
  shows "px (createPiece Kind_O) = int (COLS div 2) - 2 \<and> px (createPiece Kind_O) = 3 \<and>
         py (createPiece Kind_O) = - 1 \<and>
         (\<exists>s'. hardDrop rand s = Some (Inr s') \<and>
           board s' = (makeMatrix ROWS COLS None)
                        [18 := emptyRow[4 := Some ''#ffd400'', 5 := Some ''#ffd400''],
                         19 := emptyRow[4 := Some ''#ffd400'', 5 := Some ''#ffd400'']] \<and>
           score s' = score s + 38 \<and> lines s' = lines s)"
proof -
  have "px (createPiece Kind_O) = int (COLS div 2) - 2" "px (createPiece Kind_O) = 3"
    "py (createPiece Kind_O) = - 1"
    by (simp_all add: createPiece_def COLS_def Let_def)
  with hardDrop_O_result [OF assms, of rand] show ?thesis by blast
qed

theorem hardDrop_O_piece_witness:
  "board exampleState = makeMatrix ROWS COLS None \<and>
   current exampleState = Some (createPiece Kind_O) \<and>
   nextp exampleState = Some (createPiece Kind_T) \<and>
   (\<exists>s'. hardDrop exampleRand exampleState = Some (Inr s') \<and>
         truthy (board s' ! 18 ! 4) \<and> truthy (board s' ! 18 ! 5) \<and>
         truthy (board s' ! 19 ! 4) \<and> truthy (board s' ! 19 ! 5) \<and>
         \<not> truthy (board s' ! 17 ! 4) \<and> \<not> truthy (board s' ! 19 ! 3) \<and>
         score s' = 38 \<and> lines s' = 0)"
proof -
  have b: "board exampleState = makeMatrix ROWS COLS None" by code_simp
  have c: "current exampleState = Some (createPiece Kind_O)" by code_simp
  have n: "nextp exampleState = Some (createPiece Kind_T)" by code_simp
  have v: "score exampleState = 0" "lines exampleState = 0" by code_simp+
  let ?L = "(makeMatrix ROWS COLS None)
                        [18 := emptyRow[4 := Some ''#ffd400'', 5 := Some ''#ffd400''],
                         19 := emptyRow[4 := Some ''#ffd400'', 5 := Some ''#ffd400'']]"
  have t: "truthy (?L ! 18 ! 4)" "truthy (?L ! 18 ! 5)" "truthy (?L ! 19 ! 4)"
    "truthy (?L ! 19 ! 5)" "\<not> truthy (?L ! 17 ! 4)" "\<not> truthy (?L ! 19 ! 3)"
    by code_simp+
  from hardDrop_O_piece [OF b c n, of exampleRand] obtain s' where
    "hardDrop exampleRand exampleState = Some (Inr s')" "board s' = ?L"
    "score s' = score exampleState + 38" "lines s' = lines exampleState"
    by blast
  with t v have "hardDrop exampleRand exampleState = Some (Inr s') \<and>
         truthy (board s' ! 18 ! 4) \<and> truthy (board s' ! 18 ! 5) \<and>
         truthy (board s' ! 19 ! 4) \<and> truthy (board s' ! 19 ! 5) \<and>
         \<not> truthy (board s' ! 17 ! 4) \<and> \<not> truthy (board s' ! 19 ! 3) \<and>
         score s' = 38 \<and> lines s' = 0"
    by simp
  with b c n show ?thesis by blast
qed

theorem hardDrop_score_counterexample:
  "board exampleState = makeMatrix ROWS COLS None \<and>
   current exampleState = Some (createPiece Kind_O) \<and>
   score exampleState = 0 \<and>
   (int ROWS - 1 - py (createPiece Kind_O)) * 2 = 40 \<and>
   map_option (map_sum id score) (hardDrop exampleRand exampleState) = Some (Inr 38)"
proof -
  have b: "board exampleState = makeMatrix ROWS COLS None" by code_simp
  have c: "current exampleState = Some (createPiece Kind_O)" by code_simp
  have n: "nextp exampleState = Some (createPiece Kind_T)" by code_simp
  have v: "score exampleState = 0" by code_simp
  have f: "(int ROWS - 1 - py (createPiece Kind_O)) * 2 = 40" by code_simp
  from hardDrop_O_result [OF b c n, of exampleRand] obtain s' where
    "hardDrop exampleRand exampleState = Some (Inr s')" "score s' = score exampleState + 38"
    by blast
  with v have "map_option (map_sum id score) (hardDrop exampleRand exampleState) = Some (Inr 38)"
    by simp
  with b c v f show ?thesis by blast
qed

section \<open>Commands outside the running state\<close>


lemma onKeyDown_not_running:
  "\<not> running s \<Longrightarrow> code \<noteq> ''Space'' \<Longrightarrow> code \<noteq> ''Enter'' \<Longrightarrow>
   onKeyDown rand code rep s = Some (Inr s)"
  by (simp add: onKeyDown_def)

lemma onKeyDown_gameOver:
  "running s \<Longrightarrow> gameOver s \<Longrightarrow> onKeyDown rand code rep s = Some (Inr s)"
  by (simp add: onKeyDown_def)

lemma onKeyDown_paused:
  "running s \<Longrightarrow> \<not> gameOver s \<Longrightarrow> paused s \<Longrightarrow> code \<noteq> ''KeyP'' \<Longrightarrow>
   onKeyDown rand code rep s = Some (Inr s)"
  by (simp add: onKeyDown_def)

lemma togglePause_not_running: "\<not> running s \<or> gameOver s \<Longrightarrow> togglePause s = s"
  by (simp add: togglePause_def)

lemma drawBoard_returns:
  assumes "case current s of None \<Rightarrow> True | Some cur \<Rightarrow> hasBlock (matrix cur)"
  shows "drawBoard s =
           Some (Inr (if flashTimer s > 0 then s\<lparr>flashTimer := flashTimer s - 1\<rparr> else s))"
proof (cases "current s")
  case None
  then show ?thesis by (simp add: drawBoard_def Let_def)
next
  case (Some cur)
  with assms have "hasBlock (matrix cur)" by simp
  from ghostLoop_terminates [OF this] obtain g where "ghostLoop (board s) cur = Some g"
    by blast
  with Some show ?thesis by (simp add: drawBoard_def Let_def computeGhost_def)
qed

lemma update_not_running:
  assumes "\<not> (running s \<and> \<not> paused s \<and> \<not> gameOver s)"
    and "case current s of None \<Rightarrow> True | Some cur \<Rightarrow> hasBlock (matrix cur)"
  shows "update rand t s =
           Some (Inr (s\<lparr>lastTime := t,
                        flashTimer := (if flashTimer s > 0 then flashTimer s - 1
                                       else flashTimer s)\<rparr>))"
proof -
  have "case current (s\<lparr>lastTime := t\<rparr>) of None \<Rightarrow> True | Some cur \<Rightarrow> hasBlock (matrix cur)"
    using assms(2) by simp
  from drawBoard_returns [OF this] assms(1) show ?thesis
    by (auto simp: update_def Let_def)
qed

text \<open>
  Claim C9, as the code has it. Outside the \<open>Running\<close> state every command but the start of
  a new game and, in \<open>Paused\<close>, the pause toggle returns normally and leaves the whole state as
  it is: every key but Space and Enter in \<open>Idle\<close> and \<open>GameOver\<close>, every key but P in \<open>Paused\<close>
  (Space and Enter included), and the pause button in \<open>Idle\<close> and \<open>GameOver\<close>. A frame changes
  only the frame clock and the flash countdown: the gravity tick does nothing to board,
  pieces, score, lines, level or flags. (A frame draws the ghost of the current piece, so it
  returns when that piece, if there is one, has an occupied cell.) The start of a new game is
  not gated by the state where it comes from a button.
\<close>

theorem commands_outside_running:
  assumes "phase s \<noteq> Running"
  shows "(\<forall>code rep.
            (phase s = Paused \<longrightarrow> code \<noteq> ''KeyP'') \<and>
            (phase s \<noteq> Paused \<longrightarrow> code \<noteq> ''Space'' \<and> code \<noteq> ''Enter'')
            \<longrightarrow> dispatch rand (KeyDown code rep) s = Some (Inr s))
       \<and> (phase s \<noteq> Paused \<longrightarrow> dispatch rand ClickPause s = Some (Inr s))
       \<and> (\<forall>t. (case current s of None \<Rightarrow> True | Some cur \<Rightarrow> hasBlock (matrix cur))
            \<longrightarrow> dispatch rand (AnimationFrame t) s =
                  Some (Inr (s\<lparr>lastTime := t,
                               flashTimer := (if flashTimer s > 0 then flashTimer s - 1
                                              else flashTimer s)\<rparr>)))"
proof (intro conjI allI impI)
  fix code rep
  assume k: "(phase s = Paused \<longrightarrow> code \<noteq> ''KeyP'') \<and>
            (phase s \<noteq> Paused \<longrightarrow> code \<noteq> ''Space'' \<and> code \<noteq> ''Enter'')"
  consider (idle) "\<not> running s" "phase s \<noteq> Paused"
    | (over) "running s" "gameOver s"
    | (paused) "running s" "\<not> gameOver s" "paused s" "phase s = Paused"
    using assms by (auto simp: phase_def split: if_splits)
  then have "onKeyDown rand code rep s = Some (Inr s)"
  proof cases
    case idle
    with k show ?thesis by (simp add: onKeyDown_not_running)
  next
    case over
    then show ?thesis by (rule onKeyDown_gameOver)
  next
    case paused
    with k show ?thesis by (simp add: onKeyDown_paused)
  qed
  then show "dispatch rand (KeyDown code rep) s = Some (Inr s)"
    by (simp add: dispatch_def)
next
  assume "phase s \<noteq> Paused"
  with assms have "\<not> running s \<or> gameOver s"
    by (auto simp: phase_def split: if_splits)
  then have "togglePause s = s" by (rule togglePause_not_running)
  then show "dispatch rand ClickPause s = Some (Inr s)"
    by (simp add: dispatch_def)
next
  fix t
  assume g: "case current s of None \<Rightarrow> True | Some cur \<Rightarrow> hasBlock (matrix cur)"
  from assms have "\<not> (running s \<and> \<not> paused s \<and> \<not> gameOver s)"
    by (auto simp: phase_def split: if_splits)
  from update_not_running [OF this g, of rand t]
  show "dispatch rand (AnimationFrame t) s =
                  Some (Inr (s\<lparr>lastTime := t,
                               flashTimer := (if flashTimer s > 0 then flashTimer s - 1
                                              else flashTimer s)\<rparr>))"
    by (simp add: dispatch_def)
qed

theorem commands_outside_running_witness:
  "phase exampleIdleState = Idle \<and>
   dispatch exampleRand (KeyDown ''ArrowLeft'' False) exampleIdleState =
     Some (Inr exampleIdleState) \<and>
   dispatch exampleRand ClickPause exampleIdleState = Some (Inr exampleIdleState) \<and>
   dispatch exampleRand (AnimationFrame 16) exampleIdleState =
     Some (Inr (exampleIdleState\<lparr>lastTime := 16\<rparr>)) \<and>
   phase (togglePause exampleState) = Paused \<and>
   dispatch exampleRand (KeyDown ''Space'' False) (togglePause exampleState) =
     Some (Inr (togglePause exampleState)) \<and>
   dispatch exampleRand (AnimationFrame 5000) (togglePause exampleState) =
     Some (Inr ((togglePause exampleState)\<lparr>lastTime := 5000\<rparr>))"
proof -
  let ?p = "togglePause exampleState"
  have i: "phase exampleIdleState = Idle" by code_simp
  have p: "phase ?p = Paused" by code_simp
  have ci: "current exampleIdleState = None" "flashTimer exampleIdleState = 0" by code_simp+
  have cp: "current ?p = Some (createPiece Kind_O)" "flashTimer ?p = 0" by code_simp+
  have hb: "hasBlock (matrix (createPiece Kind_O))" by code_simp
  have k: "''ArrowLeft'' \<noteq> ''Space''" "''ArrowLeft'' \<noteq> ''Enter''" "''Space'' \<noteq> ''KeyP''"
    by simp_all
  note a = commands_outside_running [of exampleIdleState exampleRand]
  note b = commands_outside_running [of ?p exampleRand]
  from a i k have a1: "dispatch exampleRand (KeyDown ''ArrowLeft'' False) exampleIdleState =
     Some (Inr exampleIdleState)" by simp
  from a i have a2: "dispatch exampleRand ClickPause exampleIdleState = Some (Inr exampleIdleState)"
    by simp
  from a i ci have a3: "dispatch exampleRand (AnimationFrame 16) exampleIdleState =
     Some (Inr (exampleIdleState\<lparr>lastTime := 16\<rparr>))" by simp
  from b p k have b1: "dispatch exampleRand (KeyDown ''Space'' False) ?p = Some (Inr ?p)"
    by simp
  from b p cp hb have b3: "dispatch exampleRand (AnimationFrame 5000) ?p =
     Some (Inr (?p\<lparr>lastTime := 5000\<rparr>))" by simp
  from i a1 a2 a3 p b1 b3 show ?thesis by blast
qed


theorem restart_while_paused_counterexample:
  "map_option (map_sum id phase)
     (run exampleRand [KeyDown ''Space'' False, KeyDown ''Space'' False, KeyDown ''KeyP'' False]
        exampleIdleState) = Some (Inr Paused) \<and>
   map_option (map_sum id score)
     (run exampleRand [KeyDown ''Space'' False, KeyDown ''Space'' False, KeyDown ''KeyP'' False]
        exampleIdleState) = Some (Inr 38) \<and>
   map_option (map_sum id restartBtnDisabled)
     (run exampleRand [KeyDown ''Space'' False, KeyDown ''Space'' False, KeyDown ''KeyP'' False]
        exampleIdleState) = Some (Inr False) \<and>
   map_option (map_sum id phase)
     (run exampleRand [KeyDown ''Space'' False, KeyDown ''Space'' False, KeyDown ''KeyP'' False,
                       ClickRestart] exampleIdleState) = Some (Inr Running) \<and>
   map_option (map_sum id score)
     (run exampleRand [KeyDown ''Space'' False, KeyDown ''Space'' False, KeyDown ''KeyP'' False,
                       ClickRestart] exampleIdleState) = Some (Inr 0)"
  by code_simp

end
